theory Spec2Isabelle
  imports Complex_Main "HOL-Library.Log_Nat" "HOL-Library.AList"
begin

section \<open>Python values\<close>

text \<open>
  A Python \<open>float\<close> is an IEEE-754 binary64 value. A finite one is modelled by the rational
  number it denotes (the sign of a zero is not kept: nothing below observes it), the others
  by \<open>PInf\<close>, \<open>NInf\<close> and \<open>NaN\<close>. A Python \<open>str\<close> is modelled by the list of the bytes of
  its UTF-8 encoding.
\<close>

datatype pyfloat = Fin rat | PInf | NInf | NaN

datatype pynum = PyInt int | PyFloat pyfloat

datatype pyvalue =
    PNone
  | PBool bool
  | PInt int
  | PFloat pyfloat
  | PStr string
  | PList "pyvalue list"

datatype pyerr =
    ValueError
  | OverflowError
  | AttributeError
  | TypeError
  | FileNotFoundError string
  | EngineFailure string

subsection \<open>Rounding to binary64\<close>

text \<open>
  \<open>binade x\<close> is the exponent \<open>e\<close> with \<open>2^e \<le> x < 2^(e+1)\<close> of a positive \<open>x\<close>. A binary64
  value has 53 significant bits and a least exponent of \<open>-1022\<close>: the doubles around \<open>x\<close>
  have the exponent \<open>expo x\<close> and are the multiples of \<open>ulp x\<close>. \<open>round_rat\<close> rounds to the
  nearest of them, a tie going to the even multiple; \<open>fl\<close> adds the overflow to an
  infinity. A float literal of the source denotes \<open>fl\<close> of its decimal value, and the
  finite floats are the numbers \<open>x\<close> with \<open>is_double x\<close>.
\<close>

definition round_half_even :: "rat \<Rightarrow> int" where
  "round_half_even q =
     (let f = \<lfloor>q\<rfloor>; r = q - of_int f
      in if r < 1 / 2 then f else if 1 / 2 < r then f + 1 else if even f then f else f + 1)"

definition binade :: "rat \<Rightarrow> int" where
  "binade x =
     (if 1 \<le> x then int (floorlog 2 (nat \<lfloor>x\<rfloor>)) - 1
      else - int (floorlog 2 (nat \<lceil>1 / x\<rceil> - 1)))"

definition expo :: "rat \<Rightarrow> int" where
  "expo x = max (binade \<bar>x\<bar>) (- 1022)"

definition ulp :: "rat \<Rightarrow> rat" where
  "ulp x = 2 powi (expo x - 52)"

definition round_rat :: "rat \<Rightarrow> rat" where
  "round_rat x =
     (if x = 0 then 0 else sgn x * (ulp x * of_int (round_half_even (\<bar>x\<bar> / ulp x))))"

definition max_double :: rat where
  "max_double = (2 ^ 53 - 1) * 2 ^ 971"

definition fl :: "rat \<Rightarrow> pyfloat" where
  "fl x =
     (let r = round_rat x
      in if max_double < r then PInf else if r < - max_double then NInf else Fin r)"

definition is_double :: "rat \<Rightarrow> bool" where
  "is_double x \<longleftrightarrow> round_rat x = x \<and> \<bar>x\<bar> \<le> max_double"

subsection \<open>Arithmetic of floats\<close>

text \<open>
  The operators of the source always have an \<open>int\<close> literal on the right (3600, 60, 1,
  1000), which Python converts to the float of the same value; the right operand is
  therefore an integer \<open>w\<close>, never zero. \<open>fmod\<close> is the C function: its result is exact and
  has the sign of the dividend. \<open>float_floor_div\<close> and \<open>float_rem\<close> follow CPython's
  \<open>float_floor_div\<close> and \<open>float_rem\<close> statement by statement, every operation of the C
  code that rounds being a \<open>round_rat\<close> here. With \<open>1 \<le> \<bar>w\<bar>\<close> no intermediate result exceeds
  the dividend in magnitude by more than one, so that none overflows. An infinite or NaN
  dividend gives NaN in both.
\<close>

definition trunc :: "rat \<Rightarrow> int" where
  "trunc x = (if 0 \<le> x then \<lfloor>x\<rfloor> else \<lceil>x\<rceil>)"

definition fmod :: "rat \<Rightarrow> rat \<Rightarrow> rat" where
  "fmod x y = x - y * of_int (trunc (x / y))"

definition float_rem :: "pyfloat \<Rightarrow> int \<Rightarrow> pyfloat" where
  "float_rem v w =
     (case v of
        Fin vx \<Rightarrow>
          (let wx = of_int w; m = fmod vx wx
           in if m \<noteq> 0 then (if (wx < 0) \<noteq> (m < 0) then Fin (round_rat (m + wx)) else Fin m)
              else Fin 0)
      | _ \<Rightarrow> NaN)"

definition float_floor_div :: "pyfloat \<Rightarrow> int \<Rightarrow> pyfloat" where
  "float_floor_div v w =
     (case v of
        Fin vx \<Rightarrow>
          (let wx = of_int w;
               m = fmod vx wx;
               d = round_rat (round_rat (vx - m) / wx);
               d = (if m \<noteq> 0 \<and> (wx < 0) \<noteq> (m < 0) then round_rat (d - 1) else d)
           in if d \<noteq> 0
              then (let floordiv = of_int \<lfloor>d\<rfloor>
                    in if 1 / 2 < round_rat (d - floordiv) then Fin (round_rat (floordiv + 1))
                       else Fin floordiv)
              else Fin 0)
      | _ \<Rightarrow> NaN)"

definition float_mul :: "pyfloat \<Rightarrow> int \<Rightarrow> pyfloat" where
  "float_mul v w =
     (case v of
        Fin vx \<Rightarrow> fl (vx * of_int w)
      | NaN \<Rightarrow> NaN
      | PInf \<Rightarrow> (if 0 < w then PInf else if w < 0 then NInf else NaN)
      | NInf \<Rightarrow> (if 0 < w then NInf else if w < 0 then PInf else NaN))"

text \<open>
  The operators \<open>//\<close>, \<open>%\<close> and \<open>*\<close> and the conversion \<open>int(...)\<close> on either kind of number.
  On \<open>int\<close> Python's \<open>//\<close> and \<open>%\<close> floor, as \<open>div\<close> and \<open>mod\<close> do in HOL. \<open>int\<close> of a float
  truncates towards zero and raises on NaN and on the infinities.
\<close>

fun py_floordiv :: "pynum \<Rightarrow> int \<Rightarrow> pynum" where
  "py_floordiv (PyInt a) w = PyInt (a div w)"
| "py_floordiv (PyFloat v) w = PyFloat (float_floor_div v w)"

fun py_mod :: "pynum \<Rightarrow> int \<Rightarrow> pynum" where
  "py_mod (PyInt a) w = PyInt (a mod w)"
| "py_mod (PyFloat v) w = PyFloat (float_rem v w)"

fun py_mul :: "pynum \<Rightarrow> int \<Rightarrow> pynum" where
  "py_mul (PyInt a) w = PyInt (a * w)"
| "py_mul (PyFloat v) w = PyFloat (float_mul v w)"

fun py_int :: "pynum \<Rightarrow> pyerr + int" where
  "py_int (PyInt a) = Inr a"
| "py_int (PyFloat (Fin x)) = Inr (trunc x)"
| "py_int (PyFloat NaN) = Inl ValueError"
| "py_int (PyFloat PInf) = Inl OverflowError"
| "py_int (PyFloat NInf) = Inl OverflowError"

section \<open>Strings\<close>

definition digit_char :: "nat \<Rightarrow> char" where
  "digit_char d = ''0123456789'' ! d"

fun str_nat :: "nat \<Rightarrow> string" where
  "str_nat n = (if n < 10 then [digit_char n] else str_nat (n div 10) @ [digit_char (n mod 10)])"

declare str_nat.simps [simp del]

text \<open>\<open>str(i)\<close>, as the replacement field \<open>{i}\<close> of an f-string prints an \<open>int\<close>.\<close>

definition str_int :: "int \<Rightarrow> string" where
  "str_int i = (if i < 0 then CHR ''-'' # str_nat (nat (- i)) else str_nat (nat i))"

definition zfill :: "nat \<Rightarrow> string \<Rightarrow> string" where
  "zfill w s = replicate (w - length s) CHR ''0'' @ s"

text \<open>The replacement field \<open>{i:0wd}\<close>: the zeros go between the sign and the digits.\<close>

definition format_0d :: "nat \<Rightarrow> int \<Rightarrow> string" where
  "format_0d w i =
     (if i < 0 then CHR ''-'' # zfill (w - 1) (str_nat (nat (- i))) else zfill w (str_nat (nat i)))"

text \<open>
  The characters that \<open>str.strip()\<close> removes, in UTF-8: U+0009 to U+000D, U+001C to U+0020,
  U+0085, U+00A0, U+1680, U+2000 to U+200A, U+2028, U+2029, U+202F, U+205F and U+3000.
\<close>

definition py_whitespace :: "string list" where
  "py_whitespace =
     [[CHR 0x09], [CHR 0x0A], [CHR 0x0B], [CHR 0x0C], [CHR 0x0D],
      [CHR 0x1C], [CHR 0x1D], [CHR 0x1E], [CHR 0x1F], [CHR 0x20],
      [CHR 0xC2, CHR 0x85], [CHR 0xC2, CHR 0xA0],
      [CHR 0xE1, CHR 0x9A, CHR 0x80],
      [CHR 0xE2, CHR 0x80, CHR 0x80], [CHR 0xE2, CHR 0x80, CHR 0x81],
      [CHR 0xE2, CHR 0x80, CHR 0x82], [CHR 0xE2, CHR 0x80, CHR 0x83],
      [CHR 0xE2, CHR 0x80, CHR 0x84], [CHR 0xE2, CHR 0x80, CHR 0x85],
      [CHR 0xE2, CHR 0x80, CHR 0x86], [CHR 0xE2, CHR 0x80, CHR 0x87],
      [CHR 0xE2, CHR 0x80, CHR 0x88], [CHR 0xE2, CHR 0x80, CHR 0x89],
      [CHR 0xE2, CHR 0x80, CHR 0x8A],
      [CHR 0xE2, CHR 0x80, CHR 0xA8], [CHR 0xE2, CHR 0x80, CHR 0xA9],
      [CHR 0xE2, CHR 0x80, CHR 0xAF], [CHR 0xE2, CHR 0x81, CHR 0x9F],
      [CHR 0xE3, CHR 0x80, CHR 0x80]]"

definition match_len :: "string list \<Rightarrow> string \<Rightarrow> nat" where
  "match_len ws s =
     (case find (\<lambda>w. take (length w) s = w) ws of Some w \<Rightarrow> length w | None \<Rightarrow> 0)"

function strip_leading :: "string list \<Rightarrow> string \<Rightarrow> string" where
  "strip_leading ws s =
     (if match_len ws s = 0 then s else strip_leading ws (drop (match_len ws s) s))"
  by pat_completeness auto
termination
proof (relation "measure (\<lambda>(ws, s). length s)")
  show "wf (measure (\<lambda>(ws, s). length s))"
    by simp
next
  fix ws :: "string list" and s :: string
  assume n: "match_len ws s \<noteq> 0"
  have "s \<noteq> []"
  proof
    assume "s = []"
    then have "match_len ws s = 0"
      by (auto simp: match_len_def split: option.splits dest: find_Some_iff [THEN iffD1])
    with n show False by simp
  qed
  with n show "((ws, drop (match_len ws s) s), (ws, s)) \<in> measure (\<lambda>(ws, s). length s)"
    by (cases s) auto
qed

declare strip_leading.simps [simp del]

definition lstrip :: "string \<Rightarrow> string" where
  "lstrip s = strip_leading py_whitespace s"

definition rstrip :: "string \<Rightarrow> string" where
  "rstrip s = rev (strip_leading (map rev py_whitespace) (rev s))"

definition strip :: "string \<Rightarrow> string" where
  "strip s = rstrip (lstrip s)"

text \<open>\<open>s.split(sep)\<close> for a one-character separator, and \<open>sep.join(xs)\<close>.\<close>

fun py_split :: "char \<Rightarrow> string \<Rightarrow> string list" where
  "py_split sep [] = [[]]"
| "py_split sep (c # cs) =
     (if c = sep then [] # py_split sep cs
      else (case py_split sep cs of [] \<Rightarrow> [[c]] | l # ls \<Rightarrow> (c # l) # ls))"

fun py_join :: "string \<Rightarrow> string list \<Rightarrow> string" where
  "py_join sep [] = []"
| "py_join sep [x] = x"
| "py_join sep (x # y # ys) = x @ sep @ py_join sep (y # ys)"

text \<open>The slice \<open>xs[:n]\<close>: a negative \<open>n\<close> counts from the end.\<close>

definition slice_to :: "'a list \<Rightarrow> int \<Rightarrow> 'a list" where
  "slice_to xs n = (if 0 \<le> n then take (nat n) xs else take (nat (int (length xs) + n)) xs)"

section \<open>formatter.py\<close>

fun format_time :: "pynum \<Rightarrow> pyerr + string" where
  "format_time seconds =
     (case py_int (py_floordiv seconds 3600) of Inl e \<Rightarrow> Inl e | Inr hours \<Rightarrow>
      case py_int (py_floordiv (py_mod seconds 3600) 60) of Inl e \<Rightarrow> Inl e | Inr minutes \<Rightarrow>
      case py_int (py_mod seconds 60) of Inl e \<Rightarrow> Inl e | Inr secs \<Rightarrow>
      case py_int (py_mul (py_mod seconds 1) 1000) of Inl e \<Rightarrow> Inl e | Inr millisecs \<Rightarrow>
        Inr (format_0d 2 hours @ '':'' @ format_0d 2 minutes @ '':'' @ format_0d 2 secs
             @ '','' @ format_0d 3 millisecs))"

declare format_time.simps [simp del]

text \<open>
  A segment is a dictionary of the transcription engine that holds the keys \<open>start\<close>, \<open>end\<close>
  and \<open>text\<close>; whatever else it holds (an \<open>id\<close>, tokens, ...) is the extension of the record.
\<close>

record segment =
  seg_start :: pynum
  seg_end :: pynum
  seg_text :: string

definition format_segment :: "int \<Rightarrow> 'a segment_scheme \<Rightarrow> pyerr + string" where
  "format_segment index seg =
     (case format_time (seg_start seg) of Inl e \<Rightarrow> Inl e | Inr start_time \<Rightarrow>
      case format_time (seg_end seg) of Inl e \<Rightarrow> Inl e | Inr end_time \<Rightarrow>
        (let text = strip (seg_text seg)
         in Inr (str_int index @ [CHR 0x0A] @ start_time @ '' --> '' @ end_time @ [CHR 0x0A]
                 @ text @ [CHR 0x0A, CHR 0x0A])))"

text \<open>The loop of \<open>format_srt\<close>: \<open>srt_content\<close> is the accumulator, \<open>i\<close> the counter of \<open>enumerate\<close>.\<close>

fun format_srt_loop :: "string \<Rightarrow> int \<Rightarrow> 'a segment_scheme list \<Rightarrow> pyerr + string" where
  "format_srt_loop srt_content i [] = Inr srt_content"
| "format_srt_loop srt_content i (seg # segs) =
     (case format_segment i seg of
        Inl e \<Rightarrow> Inl e
      | Inr block \<Rightarrow> format_srt_loop (srt_content @ block) (i + 1) segs)"

definition format_srt :: "'a segment_scheme list \<Rightarrow> pyerr + string" where
  "format_srt segments = format_srt_loop [] 1 segments"

definition preview_srt :: "string \<Rightarrow> int \<Rightarrow> string" where
  "preview_srt content max_lines =
     (let lines = py_split (CHR 0x0A) content
      in if int (length lines) \<le> max_lines then content
         else (let preview_lines = slice_to lines max_lines;
                   remaining = int (length lines) - max_lines
               in py_join [CHR 0x0A] preview_lines
                  @ [CHR 0x0A, CHR 0x0A] @ ''... ('' @ str_int remaining @ '' more lines)''))"

section \<open>config.py\<close>

text \<open>
  The fields of the dataclass. Python does not enforce the annotations, so every field
  holds a value of any kind. \<open>other_attrs\<close> is the rest of the instance dictionary: what
  \<open>setattr\<close> has stored under a name that is not a field.
\<close>

record WhisperConfig =
  model_size :: pyvalue
  language :: pyvalue
  task :: pyvalue
  word_timestamps :: pyvalue
  temperature :: pyvalue
  best_of :: pyvalue
  beam_size :: pyvalue
  patience :: pyvalue
  length_penalty :: pyvalue
  suppress_tokens :: pyvalue
  condition_on_previous_text :: pyvalue
  compression_ratio_threshold :: pyvalue
  logprob_threshold :: pyvalue
  no_speech_threshold :: pyvalue
  initial_prompt :: pyvalue
  other_attrs :: "string \<rightharpoonup> pyvalue"

text \<open>The prompt of the default language, in UTF-8.\<close>

definition slovak_prompt :: string where
  "slovak_prompt =
     ''Slovensk'' @ [CHR 0xC3, CHR 0xBD] @ '' text o teol'' @ [CHR 0xC3, CHR 0xB3]
     @ ''gii a kres'' @ [CHR 0xC5, CHR 0xA5] @ ''anstve.''"

definition post_init :: "WhisperConfig \<Rightarrow> WhisperConfig" where
  "post_init self =
     (if initial_prompt self = PNone \<and> language self = PStr ''sk''
      then self\<lparr>initial_prompt := PStr slovak_prompt\<rparr> else self)"

text \<open>
  The constructor generated by \<open>dataclass\<close>: it stores the arguments, of which the absent
  ones have been given their defaults, and runs \<open>__post_init__\<close>.
\<close>

definition new_WhisperConfig :: "WhisperConfig \<Rightarrow> WhisperConfig" where
  "new_WhisperConfig args = post_init args"

definition field_defaults :: WhisperConfig where
  "field_defaults =
     \<lparr>model_size = PStr ''turbo'', language = PStr ''sk'', task = PStr ''transcribe'',
      word_timestamps = PBool True, temperature = PFloat (fl 0), best_of = PInt 3,
      beam_size = PInt 5, patience = PFloat (fl 1), length_penalty = PFloat (fl 1),
      suppress_tokens = PList [PInt (- 1)], condition_on_previous_text = PBool False,
      compression_ratio_threshold = PFloat (fl (24 / 10)), logprob_threshold = PFloat (fl (- 1)),
      no_speech_threshold = PFloat (fl (6 / 10)), initial_prompt = PNone,
      other_attrs = Map.empty\<rparr>"

definition DEFAULT_CONFIG :: WhisperConfig where
  "DEFAULT_CONFIG = new_WhisperConfig field_defaults"

text \<open>The truth value of a Python value, and \<open>a or b\<close>.\<close>

fun truthy :: "pyvalue \<Rightarrow> bool" where
  "truthy PNone = False"
| "truthy (PBool b) = b"
| "truthy (PInt i) = (i \<noteq> 0)"
| "truthy (PFloat (Fin x)) = (x \<noteq> 0)"
| "truthy (PFloat _) = True"
| "truthy (PStr s) = (s \<noteq> [])"
| "truthy (PList xs) = (xs \<noteq> [])"

definition py_or :: "pyvalue \<Rightarrow> pyvalue \<Rightarrow> pyvalue" where
  "py_or a b = (if truthy a then a else b)"

definition to_whisper_params :: "WhisperConfig \<Rightarrow> (string \<rightharpoonup> pyvalue)" where
  "to_whisper_params self =
     map_of
       [(''language'', language self),
        (''task'', task self),
        (''word_timestamps'', word_timestamps self),
        (''temperature'', temperature self),
        (''best_of'', best_of self),
        (''beam_size'', beam_size self),
        (''patience'', patience self),
        (''length_penalty'', length_penalty self),
        (''suppress_tokens'', suppress_tokens self),
        (''initial_prompt'', py_or (initial_prompt self) (PStr [])),
        (''condition_on_previous_text'', condition_on_previous_text self),
        (''compression_ratio_threshold'', compression_ratio_threshold self),
        (''logprob_threshold'', logprob_threshold self),
        (''no_speech_threshold'', no_speech_threshold self)]"

text \<open>
  Reading and writing a field by its name, as \<open>getattr\<close> and \<open>setattr\<close> do on an instance.
\<close>

definition field_names :: "string list" where
  "field_names =
     [''model_size'', ''language'', ''task'', ''word_timestamps'', ''temperature'', ''best_of'',
      ''beam_size'', ''patience'', ''length_penalty'', ''suppress_tokens'',
      ''condition_on_previous_text'', ''compression_ratio_threshold'', ''logprob_threshold'',
      ''no_speech_threshold'', ''initial_prompt'']"

definition field_items :: "WhisperConfig \<Rightarrow> (string \<times> pyvalue) list" where
  "field_items self =
     [(''model_size'', model_size self),
      (''language'', language self),
      (''task'', task self),
      (''word_timestamps'', word_timestamps self),
      (''temperature'', temperature self),
      (''best_of'', best_of self),
      (''beam_size'', beam_size self),
      (''patience'', patience self),
      (''length_penalty'', length_penalty self),
      (''suppress_tokens'', suppress_tokens self),
      (''condition_on_previous_text'', condition_on_previous_text self),
      (''compression_ratio_threshold'', compression_ratio_threshold self),
      (''logprob_threshold'', logprob_threshold self),
      (''no_speech_threshold'', no_speech_threshold self),
      (''initial_prompt'', initial_prompt self)]"

definition get_field :: "WhisperConfig \<Rightarrow> string \<Rightarrow> pyvalue option" where
  "get_field self key = map_of (field_items self) key"

definition set_field :: "WhisperConfig \<Rightarrow> string \<Rightarrow> pyvalue \<Rightarrow> WhisperConfig" where
  "set_field self key v =
     (if key = ''model_size'' then self\<lparr>model_size := v\<rparr>
      else if key = ''language'' then self\<lparr>language := v\<rparr>
      else if key = ''task'' then self\<lparr>task := v\<rparr>
      else if key = ''word_timestamps'' then self\<lparr>word_timestamps := v\<rparr>
      else if key = ''temperature'' then self\<lparr>temperature := v\<rparr>
      else if key = ''best_of'' then self\<lparr>best_of := v\<rparr>
      else if key = ''beam_size'' then self\<lparr>beam_size := v\<rparr>
      else if key = ''patience'' then self\<lparr>patience := v\<rparr>
      else if key = ''length_penalty'' then self\<lparr>length_penalty := v\<rparr>
      else if key = ''suppress_tokens'' then self\<lparr>suppress_tokens := v\<rparr>
      else if key = ''condition_on_previous_text'' then self\<lparr>condition_on_previous_text := v\<rparr>
      else if key = ''compression_ratio_threshold'' then self\<lparr>compression_ratio_threshold := v\<rparr>
      else if key = ''logprob_threshold'' then self\<lparr>logprob_threshold := v\<rparr>
      else if key = ''no_speech_threshold'' then self\<lparr>no_speech_threshold := v\<rparr>
      else if key = ''initial_prompt'' then self\<lparr>initial_prompt := v\<rparr>
      else self)"

text \<open>
  \<open>hasattr\<close> and \<open>setattr\<close> on an instance. Besides the fields and the instance dictionary,
  \<open>hasattr\<close> finds what the class provides. \<open>object_slots\<close> are the three attributes that
  every instance of a class without \<open>__slots__\<close> has through a data descriptor; the other
  names (the two methods and what \<open>dataclass\<close> and \<open>object\<close> add) are not part of the source
  and are the parameter \<open>class_attrs\<close>.

  \<open>setattr\<close> stores a field, and under any other name it stores into the instance
  dictionary, where the value shadows what the class provides under that name. The three
  slots are the exception: \<open>__class__\<close> accepts only a class and \<open>__dict__\<close> only a
  dictionary, and a \<open>pyvalue\<close> is neither, so that \<open>TypeError\<close> is raised; \<open>__weakref__\<close> is
  not writable and \<open>AttributeError\<close> is raised. An assignment that raises leaves the
  instance as it was.
\<close>

definition object_slots :: "string list" where
  "object_slots = [''__class__'', ''__dict__'', ''__weakref__'']"

definition hasattr :: "string list \<Rightarrow> WhisperConfig \<Rightarrow> string \<Rightarrow> bool" where
  "hasattr class_attrs self key \<longleftrightarrow>
     key \<in> set field_names \<or> key \<in> set object_slots \<or> key \<in> set class_attrs
     \<or> other_attrs self key \<noteq> None"

definition setattr :: "WhisperConfig \<Rightarrow> string \<Rightarrow> pyvalue \<Rightarrow> pyerr + WhisperConfig" where
  "setattr self key v =
     (if key \<in> set field_names then Inr (set_field self key v)
      else if key = ''__class__'' \<or> key = ''__dict__'' then Inl TypeError
      else if key = ''__weakref__'' then Inl AttributeError
      else Inr (self\<lparr>other_attrs := (other_attrs self)(key \<mapsto> v)\<rparr>))"

text \<open>
  An instance of \<open>WhisperConfig\<close> is an object: whoever holds a reference to it sees what
  another holder assigns. The store gives the present state of the configuration object at
  every address. \<open>DEFAULT_CONFIG_ref\<close> is the address of the one object that the module
  binds to \<open>DEFAULT_CONFIG\<close>; in \<open>module_store\<close>, the store when the module has been
  loaded, that object is as its constructor left it.
\<close>

type_synonym store = "nat \<Rightarrow> WhisperConfig"

definition DEFAULT_CONFIG_ref :: nat where
  "DEFAULT_CONFIG_ref = 0"

definition module_store :: store where
  "module_store = (\<lambda>a. DEFAULT_CONFIG)"

section \<open>generator.py\<close>

text \<open>
  The transcription engine is a parameter: \<open>load_step\<close> is \<open>whisper.load_model\<close>, \<open>run_step\<close>
  is the \<open>transcribe\<close> method of the model it returns. Either may raise. Every call into the
  engine is appended to a log, which is part of the state next to the generator.
  The generator holds its configuration by reference: \<open>gen_config\<close> is an address of the
  store.
\<close>

record transcription =
  res_text :: string
  res_segments :: "segment list"
  res_language :: string

record 'h engine =
  load_step :: "string \<Rightarrow> pyerr + 'h"
  run_step :: "'h \<Rightarrow> string \<Rightarrow> (string \<rightharpoonup> pyvalue) \<Rightarrow> pyerr + transcription"

datatype 'h engine_call =
    LoadCall string
  | RunCall 'h string "string \<rightharpoonup> pyvalue"

record 'h SubtitleGenerator =
  gen_model_size :: string
  gen_config :: nat
  gen_model :: "'h option"

type_synonym 'h world = "'h SubtitleGenerator \<times> 'h engine_call list"

text \<open>\<open>__init__\<close>: an instance of a dataclass is always true, so \<open>config or DEFAULT_CONFIG\<close>
  is \<open>config\<close> unless it is \<open>None\<close>; then it is the module's object itself, not a copy, and
  every generator built without a configuration holds that same object.\<close>

definition new_SubtitleGenerator :: "string \<Rightarrow> nat option \<Rightarrow> 'h SubtitleGenerator" where
  "new_SubtitleGenerator msize cfg =
     \<lparr>gen_model_size = msize,
      gen_config = (case cfg of Some c \<Rightarrow> c | None \<Rightarrow> DEFAULT_CONFIG_ref),
      gen_model = None\<rparr>"

definition load_model :: "'h engine \<Rightarrow> 'h world \<Rightarrow> (pyerr + unit) \<times> 'h world" where
  "load_model eng s =
     (case s of (self, calls) \<Rightarrow>
        (case gen_model self of
           None \<Rightarrow>
             (case load_step eng (gen_model_size self) of
                Inl e \<Rightarrow> (Inl e, (self, calls @ [LoadCall (gen_model_size self)]))
              | Inr h \<Rightarrow>
                  (Inr (), (self\<lparr>gen_model := Some h\<rparr>, calls @ [LoadCall (gen_model_size self)])))
         | Some h \<Rightarrow> (Inr (), s)))"

text \<open>
  \<open>file_exists\<close> is the persistent storage: what \<open>Path(video_path).exists()\<close> answers.
  \<open>transcribe\<close> reads the configuration object in the store \<open>cfgs\<close> and assigns nothing
  to it.
\<close>

definition transcribe ::
  "'h engine \<Rightarrow> (string \<Rightarrow> bool) \<Rightarrow> store \<Rightarrow> string \<Rightarrow> (string \<rightharpoonup> pyvalue) \<Rightarrow> 'h world
     \<Rightarrow> (pyerr + transcription) \<times> 'h world" where
  "transcribe eng file_exists cfgs video_path kwargs s =
     (case load_model eng s of
        (Inl e, s1) \<Rightarrow> (Inl e, s1)
      | (Inr u, (self, calls)) \<Rightarrow>
          if \<not> file_exists video_path
          then (Inl (FileNotFoundError (''Video file not found: '' @ video_path)), (self, calls))
          else (let params = to_whisper_params (cfgs (gen_config self)) ++ kwargs
                in case gen_model self of
                     None \<Rightarrow> (Inl AttributeError, (self, calls))
                   | Some h \<Rightarrow>
                       (run_step eng h video_path params,
                        (self, calls @ [RunCall h video_path params]))))"

text \<open>
  \<open>update_config\<close> assigns through the reference that the generator holds: the object at
  \<open>gen_config self\<close> changes in the store, the generator itself does not. The keywords are
  taken in their order. The loop ends at the first \<open>setattr\<close> that raises: its exception
  is the result of the call, the assignments made before it remain and the keywords after
  it are not looked at.
\<close>

fun update_config_loop ::
  "string list \<Rightarrow> nat \<Rightarrow> store \<Rightarrow> (string \<times> pyvalue) list \<Rightarrow> (pyerr + unit) \<times> store" where
  "update_config_loop class_attrs a cfgs [] = (Inr (), cfgs)"
| "update_config_loop class_attrs a cfgs ((key, v) # kwargs) =
     (if hasattr class_attrs (cfgs a) key
      then (case setattr (cfgs a) key v of
              Inl e \<Rightarrow> (Inl e, cfgs)
            | Inr c \<Rightarrow> update_config_loop class_attrs a (cfgs(a := c)) kwargs)
      else update_config_loop class_attrs a cfgs kwargs)"

definition update_config ::
  "string list \<Rightarrow> (string \<times> pyvalue) list \<Rightarrow> 'h SubtitleGenerator \<Rightarrow> store
     \<Rightarrow> (pyerr + unit) \<times> store" where
  "update_config class_attrs kwargs self cfgs =
     update_config_loop class_attrs (gen_config self) cfgs kwargs"

section \<open>Sequences of calls\<close>

text \<open>
  The methods of a generator that reach its engine handle or its configuration, and a run of
  a sequence of them on one instance, whose caller goes on after a call that has raised.
  The state is the generator with the log of the engine, and the store. \<open>generate\<close> and
  \<open>generate_translated\<close> reach the handle and the configuration only through \<open>transcribe\<close>.
\<close>

datatype op =
    Load
  | Transcribe string "string \<rightharpoonup> pyvalue"
  | UpdateConfig "(string \<times> pyvalue) list"

fun exec_op ::
  "'h engine \<Rightarrow> (string \<Rightarrow> bool) \<Rightarrow> string list \<Rightarrow> 'h world \<times> store \<Rightarrow> op \<Rightarrow> 'h world \<times> store" where
  "exec_op eng file_exists class_attrs (s, cfgs) Load = (snd (load_model eng s), cfgs)"
| "exec_op eng file_exists class_attrs (s, cfgs) (Transcribe video_path kwargs) =
     (snd (transcribe eng file_exists cfgs video_path kwargs s), cfgs)"
| "exec_op eng file_exists class_attrs (s, cfgs) (UpdateConfig kwargs) =
     (s, snd (update_config class_attrs kwargs (fst s) cfgs))"

definition exec_ops ::
  "'h engine \<Rightarrow> (string \<Rightarrow> bool) \<Rightarrow> string list \<Rightarrow> 'h world \<times> store \<Rightarrow> op list
     \<Rightarrow> 'h world \<times> store" where
  "exec_ops eng file_exists class_attrs s ops = foldl (exec_op eng file_exists class_attrs) s ops"

fun is_load :: "'h engine_call \<Rightarrow> bool" where
  "is_load (LoadCall n) = True"
| "is_load (RunCall h p params) = False"

definition load_count :: "'h engine_call list \<Rightarrow> nat" where
  "load_count calls = length (filter is_load calls)"

text \<open>An engine that records nothing by itself and always succeeds, and a fresh generator on it.\<close>

definition test_engine :: "nat engine" where
  "test_engine =
     \<lparr>load_step = (\<lambda>n. Inr 7),
      run_step = (\<lambda>h p params. Inr \<lparr>res_text = [], res_segments = [], res_language = []\<rparr>)\<rparr>"

definition run_count :: "'h engine_call list \<Rightarrow> nat" where
  "run_count calls = length (filter (\<lambda>c. \<not> is_load c) calls)"

definition test_generator :: "nat SubtitleGenerator" where
  "test_generator = new_SubtitleGenerator ''turbo'' None"

section \<open>Notions of the specification\<close>

text \<open>
  The concatenation of a list of formatted blocks, which is the first error if a block
  could not be formatted.
\<close>

fun concat_blocks :: "(pyerr + string) list \<Rightarrow> pyerr + string" where
  "concat_blocks [] = Inr []"
| "concat_blocks (Inl e # rs) = Inl e"
| "concat_blocks (Inr b # rs) = (case concat_blocks rs of Inl e \<Rightarrow> Inl e | Inr t \<Rightarrow> Inr (b @ t))"

text \<open>The digits, and the line that \<open>preview_srt\<close> puts last.\<close>

definition is_digit :: "char \<Rightarrow> bool" where
  "is_digit c \<longleftrightarrow> c \<in> set ''0123456789''"

definition summary_line :: "int \<Rightarrow> string" where
  "summary_line k = ''... ('' @ str_int k @ '' more lines)''"

text \<open>
  The pattern \<open>\d{2,}:\d{2}:\d{2},\d{3}\<close> as a matcher, the seconds that a time stamp denotes
  (hours times 3600 plus minutes times 60 plus seconds plus milliseconds over 1000), and a
  number of seconds truncated to milliseconds.
\<close>

definition digit_value :: "char \<Rightarrow> nat" where
  "digit_value c = of_char c - 48"

definition nat_of_digits :: "string \<Rightarrow> nat" where
  "nat_of_digits s = foldl (\<lambda>a c. 10 * a + digit_value c) 0 s"

definition matches_srt_time :: "string \<Rightarrow> bool" where
  "matches_srt_time t =
     (case py_split CHR '':'' t of
        [h, m, r] \<Rightarrow>
          (case py_split CHR '','' r of
             [s, ms] \<Rightarrow>
               list_all is_digit h \<and> 2 \<le> length h \<and> list_all is_digit m \<and> length m = 2
               \<and> list_all is_digit s \<and> length s = 2 \<and> list_all is_digit ms \<and> length ms = 3
           | _ \<Rightarrow> False)
      | _ \<Rightarrow> False)"

definition rederive_seconds :: "string \<Rightarrow> rat" where
  "rederive_seconds t =
     (case py_split CHR '':'' t of
        [h, m, r] \<Rightarrow>
          (case py_split CHR '','' r of
             [s, ms] \<Rightarrow>
               of_nat (nat_of_digits h) * 3600 + of_nat (nat_of_digits m) * 60
               + of_nat (nat_of_digits s) + of_nat (nat_of_digits ms) / 1000
           | _ \<Rightarrow> 0)
      | _ \<Rightarrow> 0)"

definition truncate_ms :: "rat \<Rightarrow> rat" where
  "truncate_ms x = of_int \<lfloor>x * 1000\<rfloor> / 1000"

section \<open>Rounding to binary64: properties\<close>

lemma binade_bounds:
  assumes "0 < x"
  shows "2 powi binade x \<le> x \<and> x < 2 powi (binade x + 1)"
proof (cases "1 \<le> x")
  case True
  define n where "n = nat \<lfloor>x\<rfloor>"
  define k where "k = floorlog 2 n"
  have n1: "1 \<le> n" using True by (simp add: n_def le_nat_iff)
  have fx: "0 \<le> \<lfloor>x\<rfloor>" using True by simp
  have nn: "(of_nat n :: rat) = of_int \<lfloor>x\<rfloor>"
    using fx by (simp add: n_def)
  have nx: "of_nat n \<le> x" "x < of_nat n + 1"
    unfolding nn using floor_correct [of x] by simp_all
  from floorlog_bounds [of n 2] n1 have b: "2 ^ (k - 1) \<le> n" "n < 2 ^ k"
    by (simp_all add: k_def)
  have k1: "1 \<le> k" using b n1 by (cases k) auto
  have e: "binade x = int k - 1" using True by (simp add: binade_def n_def k_def)
  have p1: "(2::rat) powi (int k - 1) = 2 ^ (k - 1)"
    using k1 by (simp add: power_int_def nat_diff_distrib')
  have p2: "(2::rat) powi (int k - 1 + 1) = 2 ^ k"
    by simp
  have "(2::rat) ^ (k - 1) \<le> of_nat n"
    using b(1) by (metis of_nat_le_iff of_nat_numeral of_nat_power)
  with nx have l: "(2::rat) ^ (k - 1) \<le> x" by linarith
  have "n + 1 \<le> 2 ^ k" using b(2) by simp
  then have "(of_nat (n + 1) :: rat) \<le> of_nat (2 ^ k)" by (simp only: of_nat_le_iff)
  then have "(of_nat n :: rat) + 1 \<le> 2 ^ k" by simp
  with nx have u: "x < 2 ^ k" by linarith
  show ?thesis unfolding e p1 p2 using l u by simp
next
  case False
  define y where "y = 1 / x"
  define m where "m = nat \<lceil>y\<rceil> - 1"
  define k where "k = floorlog 2 m"
  have y1: "1 < y" using False assms by (simp add: y_def)
  then have c2: "2 \<le> \<lceil>y\<rceil>" by (simp add: le_ceiling_iff)
  then have m1: "1 \<le> m" unfolding m_def by linarith
  have mc: "int m = \<lceil>y\<rceil> - 1" using c2 unfolding m_def by linarith
  from floorlog_bounds [of m 2] m1 have b: "2 ^ (k - 1) \<le> m" "m < 2 ^ k"
    by (simp_all add: k_def)
  have k1: "1 \<le> k" using b m1 by (cases k) auto
  have e: "binade x = - int k" using False by (simp add: binade_def m_def k_def y_def)
  have ym: "of_nat m < y" "y \<le> of_nat m + 1"
  proof -
    have "of_int (\<lceil>y\<rceil> - 1) < y" by (simp add: ceiling_correct)
    then show "of_nat m < y" using mc by (metis of_int_of_nat_eq)
    have "y \<le> of_int \<lceil>y\<rceil>" by (simp add: ceiling_correct)
    also have "of_int \<lceil>y\<rceil> = (of_int (int m) :: rat) + 1" using mc by simp
    finally show "y \<le> of_nat m + 1" by simp
  qed
  have "(2::rat) ^ (k - 1) \<le> of_nat m"
    using b(1) by (metis of_nat_le_iff of_nat_numeral of_nat_power)
  with ym have l: "(2::rat) ^ (k - 1) < y" by linarith
  have "m + 1 \<le> 2 ^ k" using b(2) by simp
  then have "(of_nat (m + 1) :: rat) \<le> of_nat (2 ^ k)" by (simp only: of_nat_le_iff)
  then have "(of_nat m :: rat) + 1 \<le> 2 ^ k" by simp
  with ym have u: "y \<le> 2 ^ k" by linarith
  have p1: "(2::rat) powi (- int k) = 1 / 2 ^ k"
    by (simp add: power_int_minus_divide)
  have p2: "(2::rat) powi (- int k + 1) = 1 / 2 ^ (k - 1)"
  proof -
    have "- int k + 1 = - int (k - 1)" using k1 by simp
    then show ?thesis by (simp only: power_int_minus_divide power_int_of_nat)
  qed
  have "1 / 2 ^ k \<le> x"
    using u assms by (simp add: y_def field_simps)
  moreover have "x < 1 / 2 ^ (k - 1)"
    using l assms by (simp add: y_def field_simps)
  ultimately show ?thesis unfolding e p1 p2 by simp
qed

lemma pow2_less_cancel: "(2::rat) powi a < 2 powi b \<Longrightarrow> a < b"
  by (metis linorder_not_less one_le_numeral power_int_increasing)

lemma binade_unique:
  assumes "0 < x" "2 powi e \<le> x" "x < 2 powi (e + 1)"
  shows "binade x = e"
proof -
  from binade_bounds [OF assms(1)] have b: "2 powi binade x \<le> x" "x < 2 powi (binade x + 1)"
    by blast+
  have "(2::rat) powi e < 2 powi (binade x + 1)" using assms(2) b(2) by linarith
  then have 1: "e < binade x + 1" by (rule pow2_less_cancel)
  have "(2::rat) powi binade x < 2 powi (e + 1)" using assms(3) b(1) by linarith
  then have 2: "binade x < e + 1" by (rule pow2_less_cancel)
  from 1 2 show ?thesis by simp
qed

lemma binade_mono:
  assumes "0 < x" "x \<le> y"
  shows "binade x \<le> binade y"
proof -
  have y: "0 < y" using assms by simp
  from binade_bounds [OF assms(1)] binade_bounds [OF y]
  have "(2::rat) powi binade x < 2 powi (binade y + 1)" using assms(2) by linarith
  then have "binade x < binade y + 1" by (rule pow2_less_cancel)
  then show ?thesis by simp
qed

lemma round_half_even_of_int: "round_half_even (of_int n) = n"
  by (simp add: round_half_even_def)

lemma round_half_even_bounds: "\<lfloor>q\<rfloor> \<le> round_half_even q \<and> round_half_even q \<le> \<lfloor>q\<rfloor> + 1"
  by (simp add: round_half_even_def Let_def)

lemma round_half_even_mono:
  assumes "a \<le> b"
  shows "round_half_even a \<le> round_half_even b"
proof (cases "\<lfloor>a\<rfloor> = \<lfloor>b\<rfloor>")
  case True
  have "a - of_int \<lfloor>b\<rfloor> \<le> b - of_int \<lfloor>b\<rfloor>" using assms by simp
  then show ?thesis
    by (auto simp: round_half_even_def Let_def True)
next
  case False
  have "\<lfloor>a\<rfloor> \<le> \<lfloor>b\<rfloor>" using assms by (rule floor_mono)
  with False have "\<lfloor>a\<rfloor> + 1 \<le> \<lfloor>b\<rfloor>" by simp
  with round_half_even_bounds [of a] round_half_even_bounds [of b] show ?thesis
    by linarith
qed

lemma round_half_even_near:
  assumes "\<bar>q - of_int n\<bar> < 1 / 2"
  shows "round_half_even q = n"
proof (cases "of_int n \<le> q")
  case True
  with assms have "\<lfloor>q\<rfloor> = n" by (intro floor_unique) (auto simp: abs_if split: if_splits)
  with assms True show ?thesis by (auto simp: round_half_even_def Let_def)
next
  case False
  with assms have f: "\<lfloor>q\<rfloor> = n - 1" by (intro floor_unique) (auto simp: abs_if split: if_splits)
  have "1 / 2 < q - of_int (n - 1)" using assms False by (auto simp: abs_if split: if_splits)
  then show ?thesis by (auto simp: round_half_even_def Let_def f)
qed

lemma ulp_expo: "ulp x = 2 powi (expo x - 52)"
  by (simp add: ulp_def)

lemma ulp_pos: "0 < ulp x"
  by (simp add: ulp_def)

lemma round_rat_pos:
  "0 < x \<Longrightarrow> round_rat x = ulp x * of_int (round_half_even (x / ulp x))"
  by (simp add: round_rat_def)

lemma round_rat_nonneg: "0 \<le> x \<Longrightarrow> 0 \<le> round_rat x"
proof (cases "x = 0")
  case True
  then show ?thesis by (simp add: round_rat_def)
next
  case False
  assume "0 \<le> x"
  with False have p: "0 < x" by simp
  have "0 \<le> x / ulp x" using p ulp_pos [of x] by simp
  then have "0 \<le> \<lfloor>x / ulp x\<rfloor>" by simp
  with round_half_even_bounds [of "x / ulp x"] have "0 \<le> round_half_even (x / ulp x)" by linarith
  then show ?thesis using ulp_pos [of x] by (simp add: round_rat_pos [OF p])
qed

lemma pow2_split: "(2::rat) powi (a + b) = 2 powi a * 2 powi b"
  by (simp add: power_int_add)

lemma pow2_mono: "a \<le> b \<Longrightarrow> (2::rat) powi a \<le> 2 powi b"
  by (simp add: power_int_increasing)

text \<open>The quotient by the unit in the last place lies between \<open>2^52\<close> and \<open>2^53\<close>.\<close>

lemma quotient_upper:
  assumes "0 < x"
  shows "x / ulp x < 2 ^ 53"
proof -
  have "x < 2 powi (binade x + 1)" using binade_bounds [OF assms] by blast
  also have "\<dots> \<le> 2 powi (expo x + 1)"
    using assms by (intro pow2_mono) (simp add: expo_def)
  also have "\<dots> = 2 ^ 53 * ulp x"
    using pow2_split [of 53 "expo x - 52"] by (simp add: ulp_expo add.commute)
  finally show ?thesis using ulp_pos [of x] by (simp add: field_simps)
qed

lemma quotient_lower:
  assumes "0 < x" "- 1022 \<le> binade x"
  shows "2 ^ 52 \<le> x / ulp x"
proof -
  have e: "expo x = binade x" using assms by (simp add: expo_def)
  have "2 ^ 52 * ulp x = 2 powi binade x"
    using pow2_split [of 52 "binade x - 52"] by (simp add: ulp_expo e)
  also have "\<dots> \<le> x" using binade_bounds [OF assms(1)] by blast
  finally show ?thesis using ulp_pos [of x] by (simp add: field_simps)
qed

lemma round_rat_upper:
  assumes "0 < x"
  shows "round_rat x \<le> 2 powi (expo x + 1)"
proof -
  have "round_half_even (x / ulp x) \<le> round_half_even (of_int (2 ^ 53))"
    using quotient_upper [OF assms] by (intro round_half_even_mono) simp
  then have "round_half_even (x / ulp x) \<le> 2 ^ 53"
    by (simp only: round_half_even_of_int)
  then have "(of_int (round_half_even (x / ulp x)) :: rat) \<le> 2 ^ 53"
    by (metis of_int_le_iff of_int_numeral of_int_power)
  then have "round_rat x \<le> ulp x * 2 ^ 53"
    using ulp_pos [of x] by (simp add: round_rat_pos [OF assms])
  also have "\<dots> = 2 powi (expo x + 1)"
    using pow2_split [of 53 "expo x - 52"] by (simp add: ulp_expo add.commute)
  finally show ?thesis .
qed

lemma round_rat_lower:
  assumes "0 < x" "- 1022 \<le> binade x"
  shows "2 powi binade x \<le> round_rat x"
proof -
  have e: "expo x = binade x" using assms by (simp add: expo_def)
  have "round_half_even (of_int (2 ^ 52)) \<le> round_half_even (x / ulp x)"
    using quotient_lower [OF assms] by (intro round_half_even_mono) simp
  then have "2 ^ 52 \<le> round_half_even (x / ulp x)"
    by (simp only: round_half_even_of_int)
  then have "(2 ^ 52 :: rat) \<le> of_int (round_half_even (x / ulp x))"
    by (metis of_int_le_iff of_int_numeral of_int_power)
  then have "ulp x * 2 ^ 52 \<le> round_rat x"
    using ulp_pos [of x] by (simp add: round_rat_pos [OF assms(1)])
  moreover have "ulp x * 2 ^ 52 = 2 powi binade x"
    using pow2_split [of 52 "binade x - 52"] by (simp add: ulp_expo e)
  ultimately show ?thesis by simp
qed

lemma expo_mono:
  assumes "0 < x" "x \<le> y"
  shows "expo x \<le> expo y"
  using binade_mono [OF assms] assms by (simp add: expo_def)

lemma round_rat_mono:
  assumes "0 \<le> x" "x \<le> y"
  shows "round_rat x \<le> round_rat y"
proof (cases "x = 0")
  case True
  then show ?thesis using round_rat_nonneg [of y] assms by (simp add: round_rat_def)
next
  case False
  with assms have px: "0 < x" and py: "0 < y" by simp_all
  show ?thesis
  proof (cases "expo x = expo y")
    case True
    then have u: "ulp x = ulp y" by (simp add: ulp_expo)
    have "x / ulp y \<le> y / ulp y"
      using assms(2) ulp_pos [of y] by (simp add: divide_right_mono)
    then have "round_half_even (x / ulp y) \<le> round_half_even (y / ulp y)"
      by (rule round_half_even_mono)
    then show ?thesis
      using ulp_pos [of y] by (simp add: round_rat_pos px py u)
  next
    case False
    with expo_mono [OF px assms(2)] have lt: "expo x < expo y" by simp
    then have by_: "expo y = binade y" "- 1022 \<le> binade y"
      using py by (auto simp: expo_def max_def split: if_splits)
    have "round_rat x \<le> 2 powi (expo x + 1)" by (rule round_rat_upper [OF px])
    also have "\<dots> \<le> 2 powi binade y"
      using lt by_ by (intro pow2_mono) simp
    also have "\<dots> \<le> round_rat y" by (rule round_rat_lower [OF py by_(2)])
    finally show ?thesis .
  qed
qed

text \<open>Evaluating \<open>round_rat\<close> at a given positive number.\<close>

lemma round_rat_eval:
  assumes "0 < x" "2 powi e \<le> x" "x < 2 powi (e + 1)" "- 1022 \<le> e"
    and "\<bar>x / 2 powi (e - 52) - of_int n\<bar> < 1 / 2"
  shows "round_rat x = 2 powi (e - 52) * of_int n"
proof -
  have b: "binade x = e" by (rule binade_unique [OF assms(1-3)])
  have u: "ulp x = 2 powi (e - 52)"
    using assms(1,4) by (simp add: ulp_def expo_def b)
  show ?thesis
    unfolding round_rat_pos [OF assms(1)] u round_half_even_near [OF assms(5)] ..
qed

lemma round_rat_exact:
  assumes "0 < x" "2 powi e \<le> x" "x < 2 powi (e + 1)" "- 1022 \<le> e"
    and "x = 2 powi (e - 52) * of_int n"
  shows "round_rat x = x"
proof -
  have "x / 2 powi (e - 52) = of_int n"
    by (simp add: assms(5))
  then have "\<bar>x / 2 powi (e - 52) - of_int n\<bar> < 1 / 2" by simp
  from round_rat_eval [OF assms(1-4) this] show ?thesis by (simp add: assms(5) [symmetric])
qed

lemma round_rat_of_int:
  assumes "0 \<le> n" "n \<le> 2 ^ 53"
  shows "round_rat (of_int n) = of_int n"
proof (cases "n = 0")
  case True
  then show ?thesis by (simp add: round_rat_def)
next
  case False
  with assms have p: "0 < (of_int n :: rat)" by simp
  define e where "e = binade (of_int n)"
  from binade_bounds [OF p] have b: "2 powi e \<le> (of_int n :: rat)" "(of_int n :: rat) < 2 powi (e + 1)"
    by (simp_all add: e_def)
  have "(1::rat) \<le> of_int n" using False assms by simp
  with b(2) have "(2::rat) powi 0 < 2 powi (e + 1)" by simp
  then have e0: "0 \<le> e" using pow2_less_cancel [of 0 "e + 1"] by simp
  have "(of_int n :: rat) \<le> 2 ^ 53" using assms(2) by (metis of_int_le_iff of_int_numeral of_int_power)
  with b(1) have "(2::rat) powi e < 2 powi 54"
    by (simp add: order_le_less_trans)
  then have e53: "e \<le> 53" using pow2_less_cancel [of e 54] by simp
  show ?thesis
  proof (cases "e \<le> 52")
    case True
    define k where "k = nat (52 - e)"
    have ke: "e - 52 = - int k" using True by (simp add: k_def)
    have "(of_int n :: rat) = 2 powi (e - 52) * of_int (n * 2 ^ k)"
      by (simp add: ke power_int_minus_divide)
    from round_rat_exact [OF p b _ this] e0 show ?thesis by simp
  next
    case False
    with e53 have e: "e = 53" by simp
    have "(2::rat) ^ 53 \<le> of_int n" using b(1) by (simp add: e)
    then have "2 ^ 53 \<le> n" by (metis of_int_le_iff of_int_numeral of_int_power)
    with assms(2) have n: "n = 2 ^ 53" by simp
    have "(of_int n :: rat) = 2 powi (e - 52) * of_int (2 ^ 52)"
      by (simp add: e n)
    from round_rat_exact [OF p b _ this] e0 show ?thesis by simp
  qed
qed

lemma div_mod_bounds:
  fixes a w :: int
  assumes "0 < w"
  shows "w * (a div w) \<le> a" "a + 1 \<le> w * (a div w) + w"
proof -
  have d: "w * (a div w) + a mod w = a" by (rule mult_div_mod_eq)
  have m: "0 \<le> a mod w" "a mod w < w" using assms by simp_all
  from d m show "w * (a div w) \<le> a" by linarith
  from d m show "a + 1 \<le> w * (a div w) + w" by linarith
qed

lemma floor_divide_int:
  fixes x :: rat
  assumes "0 < w"
  shows "\<lfloor>x / of_int w\<rfloor> = \<lfloor>x\<rfloor> div w"
proof (rule floor_unique)
  have w: "(0::rat) < of_int w" using assms by simp
  define q where "q = \<lfloor>x\<rfloor> div w"
  from div_mod_bounds [OF assms, of "\<lfloor>x\<rfloor>"]
  have b: "w * q \<le> \<lfloor>x\<rfloor>" "\<lfloor>x\<rfloor> + 1 \<le> w * q + w" by (simp_all add: q_def)
  have "(of_int (w * q) :: rat) \<le> of_int \<lfloor>x\<rfloor>" using b(1) by (simp only: of_int_le_iff)
  also have "\<dots> \<le> x" by (rule of_int_floor_le)
  finally have "of_int w * of_int q \<le> x" by simp
  then show "of_int (\<lfloor>x\<rfloor> div w) \<le> x / of_int w"
    using w by (simp add: q_def [symmetric] field_simps)
  have "(of_int (\<lfloor>x\<rfloor> + 1) :: rat) \<le> of_int (w * q + w)" using b(2) by (simp only: of_int_le_iff)
  moreover have "x < of_int (\<lfloor>x\<rfloor> + 1)" using floor_correct [of x] by simp
  ultimately have "x < of_int (w * q + w)" by linarith
  then have "x < of_int w * of_int q + of_int w" by simp
  then show "x / of_int w < of_int (\<lfloor>x\<rfloor> div w) + 1"
    using w by (simp add: q_def [symmetric] field_simps)
qed

lemma fmod_nonneg:
  assumes "0 \<le> x" "0 < w"
  shows "fmod x (of_int w) = x - of_int (w * (\<lfloor>x\<rfloor> div w))"
proof -
  have "0 \<le> x / of_int w" using assms by simp
  then show ?thesis
    by (simp add: fmod_def trunc_def floor_divide_int [OF assms(2)])
qed

lemma fmod_range:
  assumes "0 \<le> x" "0 < w"
  shows "0 \<le> fmod x (of_int w)" "fmod x (of_int w) < of_int w"
    "\<lfloor>fmod x (of_int w)\<rfloor> = \<lfloor>x\<rfloor> mod w"
proof -
  have f: "fmod x (of_int w) = x - of_int (w * (\<lfloor>x\<rfloor> div w))"
    by (rule fmod_nonneg [OF assms])
  have fl: "\<lfloor>fmod x (of_int w)\<rfloor> = \<lfloor>x\<rfloor> - w * (\<lfloor>x\<rfloor> div w)"
    unfolding f by (rule floor_diff_of_int)
  then show 3: "\<lfloor>fmod x (of_int w)\<rfloor> = \<lfloor>x\<rfloor> mod w"
    by (simp add: minus_mult_div_eq_mod)
  have "0 \<le> \<lfloor>x\<rfloor> mod w" using assms(2) by simp
  then have "0 \<le> \<lfloor>fmod x (of_int w)\<rfloor>" by (simp only: 3)
  then show "0 \<le> fmod x (of_int w)" by (simp only: zero_le_floor)
  have "\<lfloor>x\<rfloor> mod w < w" using assms(2) by simp
  then have "\<lfloor>fmod x (of_int w)\<rfloor> < w" by (simp only: 3)
  then show "fmod x (of_int w) < of_int w" by (simp only: floor_less_iff)
qed

lemma float_rem_nonneg:
  assumes "0 \<le> x" "0 < w"
  shows "float_rem (Fin x) w = Fin (fmod x (of_int w))"
  using fmod_range(1) [OF assms] assms(2)
  by (auto simp: float_rem_def Let_def)

lemma float_floor_div_nonneg:
  assumes "0 \<le> x" "0 < w"
  shows "\<exists>y. float_floor_div (Fin x) w = Fin y \<and> 0 \<le> y"
proof -
  define m where "m = fmod x (of_int w)"
  define d where "d = round_rat (round_rat (x - m) / of_int w)"
  have m: "0 \<le> m" "m < of_int w" using fmod_range [OF assms] by (simp_all add: m_def)
  have "0 \<le> \<lfloor>x\<rfloor> div w"
    using assms by (simp add: pos_imp_zdiv_nonneg_iff)
  then have "0 \<le> w * (\<lfloor>x\<rfloor> div w)" using assms(2) by simp
  then have "(0::rat) \<le> of_int (w * (\<lfloor>x\<rfloor> div w))" by (simp only: of_int_0_le_iff)
  then have "0 \<le> x - m"
    unfolding m_def fmod_nonneg [OF assms] by simp
  then have "0 \<le> round_rat (x - m) / of_int w"
    using assms(2) round_rat_nonneg by simp
  then have d0: "0 \<le> d" unfolding d_def by (rule round_rat_nonneg)
  have nw: "\<not> (of_int w :: rat) < 0" using assms(2) by simp
  have nm: "\<not> m < 0" using m by simp
  have e: "float_floor_div (Fin x) w =
      (if d \<noteq> 0
       then (if 1 / 2 < round_rat (d - of_int \<lfloor>d\<rfloor>) then Fin (round_rat (of_int \<lfloor>d\<rfloor> + 1))
             else Fin (of_int \<lfloor>d\<rfloor>))
       else Fin 0)"
    using nw nm by (simp add: float_floor_div_def Let_def m_def [symmetric] d_def [symmetric])
  have f0: "(0::rat) \<le> of_int \<lfloor>d\<rfloor>" using d0 by simp
  then have "0 \<le> round_rat (of_int \<lfloor>d\<rfloor> + 1)" by (intro round_rat_nonneg) simp
  with f0 show ?thesis unfolding e by auto
qed

lemma float_floor_div_exact:
  assumes "0 \<le> x" "x < 2 ^ 53" "0 < w"
  shows "float_floor_div (Fin x) w = Fin (of_int (\<lfloor>x\<rfloor> div w))"
proof -
  define k where "k = \<lfloor>x\<rfloor> div w"
  define m where "m = fmod x (of_int w)"
  have xm: "x - m = of_int (w * k)"
    unfolding m_def k_def fmod_nonneg [OF assms(1,3)] by simp
  have fx: "0 \<le> \<lfloor>x\<rfloor>" using assms(1) by simp
  have k0: "0 \<le> k" unfolding k_def using fx assms(3) by (simp add: pos_imp_zdiv_nonneg_iff)
  have a: "w * k \<le> \<lfloor>x\<rfloor>"
    unfolding k_def by (rule div_mod_bounds(1) [OF assms(3)])
  have b: "\<lfloor>x\<rfloor> < 2 ^ 53" using assms(2) by (simp add: floor_less_iff)
  have wk: "0 \<le> w * k" "w * k \<le> 2 ^ 53"
  proof -
    show "0 \<le> w * k" using k0 assms(3) by simp
    show "w * k \<le> 2 ^ 53" using a b by linarith
  qed
  have "1 * k \<le> w * k" using k0 assms(3) by (intro mult_right_mono) simp_all
  with wk(2) have k53: "k \<le> 2 ^ 53" by linarith
  have r1: "round_rat (x - m) = of_int (w * k)"
    unfolding xm by (rule round_rat_of_int [OF wk])
  have "(of_int (w * k) :: rat) / of_int w = of_int k" using assms(3) by simp
  then have d: "round_rat (round_rat (x - m) / of_int w) = of_int k"
    unfolding r1 using round_rat_of_int [OF k0 k53] by simp
  have m: "0 \<le> m" using fmod_range(1) [OF assms(1,3)] by (simp add: m_def)
  have nw: "\<not> (of_int w :: rat) < 0" using assms(3) by simp
  have nm: "\<not> m < 0" using m by simp
  have z: "round_rat 0 = 0" by (simp add: round_rat_def)
  show ?thesis
    using nw nm by (simp add: float_floor_div_def Let_def m_def [symmetric] d k_def [symmetric] z)
qed

lemma is_double_multiple:
  assumes "is_double x" "0 < x"
  shows "\<exists>n. x = ulp x * of_int n \<and> 0 \<le> n \<and> n < 2 ^ 53"
proof -
  define n where "n = round_half_even (x / ulp x)"
  have x: "x = ulp x * of_int n"
    using assms by (simp add: is_double_def round_rat_pos n_def)
  then have q: "x / ulp x = of_int n" using ulp_pos [of x]
    by (metis nonzero_mult_div_cancel_left order_less_irrefl)
  have "(of_int n :: rat) < 2 ^ 53" using quotient_upper [OF assms(2)] by (simp only: q)
  then have "(of_int n :: rat) < of_int (2 ^ 53)" by simp
  then have u: "n < 2 ^ 53" by (simp only: of_int_less_iff)
  have "0 \<le> x / ulp x" using assms(2) ulp_pos [of x] by simp
  then have "(0::rat) \<le> of_int n" by (simp only: q)
  then have "0 \<le> n" by (simp only: of_int_0_le_iff)
  with x u show ?thesis by blast
qed

lemma is_double_frac:
  assumes "is_double x" "0 \<le> x"
  shows "x - of_int \<lfloor>x\<rfloor> \<le> 1 - 1 / 2 ^ 53"
proof (cases "x = 0")
  case True
  then show ?thesis by simp
next
  case False
  with assms have p: "0 < x" by simp
  from is_double_multiple [OF assms(1) p] obtain n
    where n: "x = ulp x * of_int n" "0 \<le> n" "n < 2 ^ 53" by blast
  show ?thesis
  proof (cases "x < 1")
    case True
    have "(2::rat) powi binade x < 2 powi 0"
      using binade_bounds [OF p] True by simp
    then have "binade x < 0" by (rule pow2_less_cancel)
    then have "expo x - 52 \<le> - 53" using p by (simp add: expo_def)
    then have "ulp x \<le> 2 powi (- 53)" unfolding ulp_expo by (rule pow2_mono)
    then have u: "ulp x \<le> 1 / 2 ^ 53" by (simp add: power_int_minus_divide)
    have "n \<le> 2 ^ 53 - 1" using n(3) by simp
    then have "(of_int n :: rat) \<le> of_int (2 ^ 53 - 1)" by (simp only: of_int_le_iff)
    then have n': "(of_int n :: rat) \<le> 2 ^ 53 - 1" by simp
    have n0: "(0::rat) \<le> of_int n" using n(2) by simp
    have "ulp x * of_int n \<le> (1 / 2 ^ 53) * (2 ^ 53 - 1)"
      by (rule mult_mono [OF u n' _ n0]) simp
    then have "x \<le> (1 / 2 ^ 53) * (2 ^ 53 - 1)" by (simp only: n(1) [symmetric])
    then have "x \<le> 1 - 1 / 2 ^ 53" by simp
    moreover have "\<lfloor>x\<rfloor> = 0" using p True by (intro floor_unique) simp_all
    ultimately show ?thesis by simp
  next
    case False
    then have "(2::rat) powi 0 < 2 powi (binade x + 1)"
      using binade_bounds [OF p] by simp
    then have "0 < binade x + 1" by (rule pow2_less_cancel)
    then have e0: "0 \<le> binade x" by simp
    then have e: "expo x = binade x" using p by (simp add: expo_def)
    define k where "k = nat (binade x)"
    have ke: "binade x = int k" using e0 by (simp add: k_def)
    have "2 ^ 52 * ulp x = 2 powi binade x"
      using pow2_split [of 52 "binade x - 52"] by (simp add: ulp_expo e)
    then have s: "2 ^ 52 * ulp x = 2 ^ k" by (simp add: ke)
    have "2 ^ 52 * x = 2 ^ 52 * (ulp x * of_int n)" by (subst n(1)) (rule refl)
    also have "\<dots> = (2 ^ 52 * ulp x) * of_int n" by (simp only: mult.assoc)
    also have "\<dots> = 2 ^ k * of_int n" by (simp only: s)
    finally have i: "2 ^ 52 * x = of_int (2 ^ k * n)" by simp
    define j where "j = 2 ^ k * n - 2 ^ 52 * \<lfloor>x\<rfloor>"
    have "2 ^ 52 * (x - of_int \<lfloor>x\<rfloor>) = 2 ^ 52 * x - 2 ^ 52 * of_int \<lfloor>x\<rfloor>"
      by (rule right_diff_distrib)
    also have "\<dots> = of_int (2 ^ k * n) - 2 ^ 52 * of_int \<lfloor>x\<rfloor>" by (simp only: i)
    also have "\<dots> = of_int j" by (simp add: j_def)
    finally have jj: "2 ^ 52 * (x - of_int \<lfloor>x\<rfloor>) = of_int j" .
    have "x - of_int \<lfloor>x\<rfloor> < 1" using floor_correct [of x] by simp
    then have "2 ^ 52 * (x - of_int \<lfloor>x\<rfloor>) < 2 ^ 52 * 1"
      by (intro mult_strict_left_mono) simp_all
    then have "(of_int j :: rat) < 2 ^ 52 * 1" unfolding jj .
    then have "(of_int j :: rat) < of_int (2 ^ 52)" by simp
    then have "j < 2 ^ 52" by (simp only: of_int_less_iff)
    then have "j \<le> 2 ^ 52 - 1" by simp
    then have "(of_int j :: rat) \<le> of_int (2 ^ 52 - 1)" by (simp only: of_int_le_iff)
    then have "(of_int j :: rat) \<le> 2 ^ 52 - 1" by simp
    then have "2 ^ 52 * (x - of_int \<lfloor>x\<rfloor>) \<le> 2 ^ 52 - 1" unfolding jj .
    define f where "f = x - of_int \<lfloor>x\<rfloor>"
    have "2 ^ 52 * f \<le> 2 ^ 52 - 1"
      using \<open>2 ^ 52 * (x - of_int \<lfloor>x\<rfloor>) \<le> 2 ^ 52 - 1\<close> by (simp only: f_def)
    then have "f \<le> 1 - 1 / 2 ^ 53" by simp
    then show ?thesis by (simp only: f_def)
  qed
qed

lemma round_rat_below_1000:
  "round_rat (1000 - 1000 / 2 ^ 53) = 1000 - 1 / 2 ^ 43"
proof -
  have "round_rat (1000 - 1000 / 2 ^ 53) = 2 powi (9 - 52) * of_int (1000 * 2 ^ 43 - 1)"
    by (rule round_rat_eval) simp_all
  also have "\<dots> = 1000 - 1 / 2 ^ 43"
    by simp
  finally show ?thesis .
qed

lemma max_double_ge: "1000 \<le> max_double"
proof -
  have "(1::rat) \<le> 2 ^ 971" by (rule one_le_power) simp
  then have "(2 ^ 53 - 1) * (1::rat) \<le> (2 ^ 53 - 1) * 2 ^ 971"
    by (intro mult_left_mono) simp_all
  then show ?thesis by (simp add: max_double_def)
qed

text \<open>The milliseconds: the product of a fractional part with 1000, rounded and truncated.\<close>

lemma millis_bounds:
  assumes "0 \<le> f" "f \<le> 1 - 1 / 2 ^ 53"
  shows "float_mul (Fin f) 1000 = Fin (round_rat (f * 1000))"
    and "\<lfloor>f * 1000\<rfloor> \<le> \<lfloor>round_rat (f * 1000)\<rfloor>"
    and "\<lfloor>round_rat (f * 1000)\<rfloor> \<le> \<lfloor>f * 1000\<rfloor> + 1"
    and "0 \<le> \<lfloor>round_rat (f * 1000)\<rfloor>"
    and "\<lfloor>round_rat (f * 1000)\<rfloor> \<le> 999"
proof -
  define p where "p = f * 1000"
  define n where "n = \<lfloor>p\<rfloor>"
  have p0: "0 \<le> p" using assms(1) by (simp add: p_def)
  have pu: "p \<le> 1000 - 1000 / 2 ^ 53" using assms(2) by (simp add: p_def)
  have r0: "0 \<le> round_rat p" by (rule round_rat_nonneg [OF p0])
  have "round_rat p \<le> round_rat (1000 - 1000 / 2 ^ 53)" by (rule round_rat_mono [OF p0 pu])
  then have ru: "round_rat p \<le> 1000 - 1 / 2 ^ 43" by (simp only: round_rat_below_1000)
  then have r1000: "round_rat p < 1000" by simp
  have "round_rat p \<le> max_double" using r1000 max_double_ge by linarith
  moreover have "\<not> round_rat p < - max_double" using r0 max_double_ge by linarith
  ultimately show "float_mul (Fin f) 1000 = Fin (round_rat (f * 1000))"
    by (simp add: float_mul_def fl_def Let_def p_def [symmetric])
  have n0: "0 \<le> n" using p0 by (simp add: n_def)
  have "p < 1000" using pu by simp
  then have "n < 1000" by (simp add: n_def floor_less_iff)
  then have n53: "n \<le> 2 ^ 53" "n + 1 \<le> 2 ^ 53" by simp_all
  have "of_int n \<le> p" by (simp add: n_def)
  from round_rat_mono [OF _ this] n0 have "round_rat (of_int n) \<le> round_rat p" by simp
  then have "of_int n \<le> round_rat p" by (simp only: round_rat_of_int [OF n0 n53(1)])
  then have l: "n \<le> \<lfloor>round_rat p\<rfloor>" by (simp only: le_floor_iff)
  have "p \<le> of_int (n + 1)" using floor_correct [of p] by (simp add: n_def)
  from round_rat_mono [OF p0 this] have "round_rat p \<le> round_rat (of_int (n + 1))" .
  moreover have "round_rat (of_int (n + 1)) = of_int (n + 1)"
    using n0 n53(2) by (intro round_rat_of_int) simp_all
  ultimately have "round_rat p \<le> of_int (n + 1)" by simp
  then have u: "\<lfloor>round_rat p\<rfloor> \<le> n + 1"
    by (metis floor_mono floor_of_int)
  from l show "\<lfloor>f * 1000\<rfloor> \<le> \<lfloor>round_rat (f * 1000)\<rfloor>" by (simp add: p_def n_def)
  from u show "\<lfloor>round_rat (f * 1000)\<rfloor> \<le> \<lfloor>f * 1000\<rfloor> + 1" by (simp add: p_def n_def)
  from r0 show "0 \<le> \<lfloor>round_rat (f * 1000)\<rfloor>" by (simp add: p_def)
  have "\<lfloor>round_rat p\<rfloor> < 1000" using r1000 by (simp add: floor_less_iff)
  then show "\<lfloor>round_rat (f * 1000)\<rfloor> \<le> 999" by (simp add: p_def)
qed

section \<open>Strings: properties\<close>

lemma py_split_not_Nil: "py_split sep s \<noteq> []"
  by (induction s) (auto split: list.splits)

lemma py_split_append: "py_split sep (a @ sep # b) = py_split sep a @ py_split sep b"
proof (induction a)
  case Nil
  show ?case by simp
next
  case (Cons c cs)
  obtain l ls where l: "py_split sep cs = l # ls"
    using py_split_not_Nil [of sep cs] by (cases "py_split sep cs") auto
  show ?case
    by (simp add: Cons.IH l)
qed

lemma py_split_no_sep: "sep \<notin> set s \<Longrightarrow> py_split sep s = [s]"
  by (induction s) auto

lemma py_split_lines_no_sep: "l \<in> set (py_split sep s) \<Longrightarrow> sep \<notin> set l"
proof (induction s arbitrary: l)
  case Nil
  then show ?case by simp
next
  case (Cons c cs)
  obtain l' ls where l: "py_split sep cs = l' # ls"
    using py_split_not_Nil [of sep cs] by (cases "py_split sep cs") auto
  show ?case
  proof (cases "c = sep")
    case True
    with Cons show ?thesis by auto
  next
    case False
    with Cons.prems l have "l = c # l' \<or> l \<in> set ls" by simp
    then show ?thesis
      using Cons.IH [of l'] Cons.IH [of l] l False by auto
  qed
qed

lemma py_join_split: "py_join [sep] (py_split sep s) = s"
proof (induction s)
  case Nil
  show ?case by simp
next
  case (Cons c cs)
  obtain l ls where l: "py_split sep cs = l # ls"
    using py_split_not_Nil [of sep cs] by (cases "py_split sep cs") auto
  show ?case
    using Cons.IH by (cases ls) (auto simp: l)
qed

lemma py_split_join:
  "ls \<noteq> [] \<Longrightarrow> \<forall>l \<in> set ls. sep \<notin> set l \<Longrightarrow> py_split sep (py_join [sep] ls) = ls"
proof (induction ls)
  case Nil
  then show ?case by simp
next
  case (Cons x xs)
  show ?case
  proof (cases xs)
    case Nil
    with Cons.prems show ?thesis by (simp add: py_split_no_sep)
  next
    case (Cons y ys)
    have "py_split sep (py_join [sep] xs) = xs"
      using Cons.IH Cons.prems Cons by simp
    moreover have "py_join [sep] (x # xs) = x @ sep # py_join [sep] xs"
      by (simp add: Cons)
    ultimately show ?thesis
      using Cons.prems by (simp add: py_split_append py_split_no_sep)
  qed
qed

lemma digit_char_is_digit: "d < 10 \<Longrightarrow> is_digit (digit_char d)"
  unfolding digit_char_def is_digit_def by (rule nth_mem) simp

lemma str_nat_digits: "list_all is_digit (str_nat n)"
proof (induction n rule: str_nat.induct)
  case (1 n)
  show ?case
  proof (cases "n < 10")
    case True
    then show ?thesis
      by (simp add: str_nat.simps [of n] digit_char_is_digit)
  next
    case False
    then show ?thesis
      using "1.IH" by (simp add: str_nat.simps [of n] digit_char_is_digit)
  qed
qed

lemma newline_not_digit: "\<not> is_digit (CHR 0x0A)"
  by (simp add: is_digit_def)

lemma str_int_no_newline: "CHR 0x0A \<notin> set (str_int i)"
proof -
  have "CHR 0x0A \<notin> set (str_nat n)" for n
    using str_nat_digits [of n] newline_not_digit by (auto simp: list_all_iff)
  then show ?thesis
    by (simp add: str_int_def)
qed

lemma digit_value_digit_char: "d < 10 \<Longrightarrow> digit_value (digit_char d) = d"
proof -
  have "\<forall>d \<in> set [0, 1, 2, 3, 4, 5, 6, 7, 8, 9]. digit_value (digit_char d) = d"
    by (simp add: digit_value_def digit_char_def)
  moreover assume "d < 10"
  then have "d \<in> set [0, 1, 2, 3, 4, 5, 6, 7, 8, 9]"
    by (simp only: set_simps insert_iff empty_iff) arith
  ultimately show ?thesis by blast
qed

lemma nat_of_digits_snoc: "nat_of_digits (s @ [c]) = 10 * nat_of_digits s + digit_value c"
  by (simp add: nat_of_digits_def)

lemma nat_of_digits_str_nat: "nat_of_digits (str_nat n) = n"
proof (induction n rule: str_nat.induct)
  case (1 n)
  show ?case
  proof (cases "n < 10")
    case True
    then show ?thesis
      using nat_of_digits_snoc [of "[]" "digit_char n"]
      by (simp add: str_nat.simps [of n] digit_value_digit_char nat_of_digits_def)
  next
    case False
    have "nat_of_digits (str_nat n) = 10 * nat_of_digits (str_nat (n div 10)) + digit_value (digit_char (n mod 10))"
      using False by (simp add: str_nat.simps [of n] nat_of_digits_snoc)
    also have "\<dots> = 10 * (n div 10) + n mod 10"
      using "1.IH" [OF False] by (simp add: digit_value_digit_char)
    finally show ?thesis by simp
  qed
qed

lemma nat_of_digits_zeros: "nat_of_digits (replicate k CHR ''0'' @ s) = nat_of_digits s"
proof -
  have "foldl (\<lambda>a c. 10 * a + digit_value c) 0 (replicate k CHR ''0'') = 0"
    by (induction k) (simp_all add: digit_value_def)
  then show ?thesis by (simp add: nat_of_digits_def)
qed

lemma nat_of_digits_zfill: "nat_of_digits (zfill w (str_nat n)) = n"
  by (simp add: zfill_def nat_of_digits_zeros nat_of_digits_str_nat)

lemma zero_is_digit: "is_digit CHR ''0''"
  by (simp add: is_digit_def)

lemma zfill_digits: "list_all is_digit (zfill w (str_nat n))"
  using str_nat_digits [of n] zero_is_digit by (auto simp: zfill_def list_all_iff)

lemma str_nat_length_pos: "0 < length (str_nat n)"
  by (cases "n < 10") (simp_all add: str_nat.simps [of n])

lemma str_nat_length_le: "n < 10 ^ k \<Longrightarrow> 0 < k \<Longrightarrow> length (str_nat n) \<le> k"
proof (induction n arbitrary: k rule: str_nat.induct)
  case (1 n)
  show ?case
  proof (cases "n < 10")
    case True
    then show ?thesis using "1.prems" by (simp add: str_nat.simps [of n])
  next
    case False
    obtain j where k: "k = Suc j" using "1.prems"(2) by (cases k) auto
    have j0: "0 < j"
    proof (rule ccontr)
      assume "\<not> 0 < j"
      then have "k = 1" by (simp add: k)
      with "1.prems"(1) False show False by simp
    qed
    have "n div 10 < 10 ^ j" using "1.prems"(1) by (simp add: k less_mult_imp_div_less mult.commute)
    from "1.IH" [OF False this j0] show ?thesis
      using False by (simp add: str_nat.simps [of n] k)
  qed
qed

lemma zfill_length_ge: "w \<le> length (zfill w s)"
  by (simp add: zfill_def)

lemma zfill_length_eq: "length s \<le> w \<Longrightarrow> length (zfill w s) = w"
  by (simp add: zfill_def)

lemma format_0d_nonneg: "0 \<le> i \<Longrightarrow> format_0d w i = zfill w (str_nat (nat i))"
  by (simp add: format_0d_def)

text \<open>A field of the time stamp: digits, at least \<open>w\<close> of them, and they read back as \<open>i\<close>.\<close>

lemma format_0d_field:
  assumes "0 \<le> i"
  shows "list_all is_digit (format_0d w i)" "w \<le> length (format_0d w i)"
    "nat_of_digits (format_0d w i) = nat i"
    "i < 10 ^ w \<Longrightarrow> 0 < w \<Longrightarrow> length (format_0d w i) = w"
proof -
  note f = format_0d_nonneg [OF assms]
  show "list_all is_digit (format_0d w i)" unfolding f by (rule zfill_digits)
  show "w \<le> length (format_0d w i)" unfolding f by (rule zfill_length_ge)
  show "nat_of_digits (format_0d w i) = nat i" unfolding f by (rule nat_of_digits_zfill)
  assume "i < 10 ^ w" "0 < w"
  then have "nat i < 10 ^ w" using assms by (simp add: nat_less_iff)
  from str_nat_length_le [OF this \<open>0 < w\<close>]
  show "length (format_0d w i) = w" unfolding f by (rule zfill_length_eq)
qed

lemma digit_not_sep: "is_digit c \<Longrightarrow> c \<noteq> CHR '':'' \<and> c \<noteq> CHR '',''"
  by (auto simp: is_digit_def)

lemma digits_no_sep:
  "list_all is_digit s \<Longrightarrow> CHR '':'' \<notin> set s \<and> CHR '','' \<notin> set s"
  using digit_not_sep by (auto simp: list_all_iff)

lemma split_time_stamp:
  assumes "list_all is_digit h" "list_all is_digit m" "list_all is_digit s" "list_all is_digit ms"
  shows "py_split CHR '':'' (h @ '':'' @ m @ '':'' @ s @ '','' @ ms) = [h, m, s @ '','' @ ms]"
    and "py_split CHR '','' (s @ '','' @ ms) = [s, ms]"
proof -
  note d = digits_no_sep [OF assms(1)] digits_no_sep [OF assms(2)] digits_no_sep [OF assms(3)]
    digits_no_sep [OF assms(4)]
  have r: "CHR '':'' \<notin> set (s @ '','' @ ms)" using d by simp
  show "py_split CHR '':'' (h @ '':'' @ m @ '':'' @ s @ '','' @ ms) = [h, m, s @ '','' @ ms]"
    using py_split_append [of "CHR '':''" h "m @ '':'' @ s @ '','' @ ms"]
      py_split_append [of "CHR '':''" m "s @ '','' @ ms"]
      py_split_no_sep [OF r] d
    by (simp add: py_split_no_sep)
  show "py_split CHR '','' (s @ '','' @ ms) = [s, ms]"
    using py_split_append [of "CHR '',''" s ms] d by (simp add: py_split_no_sep)
qed

section \<open>The time formatter: properties\<close>

lemma trunc_nonneg: "0 \<le> x \<Longrightarrow> trunc x = \<lfloor>x\<rfloor>"
  by (simp add: trunc_def)

lemma format_time_int:
  "format_time (PyInt n) =
     Inr (format_0d 2 (n div 3600) @ '':'' @ format_0d 2 (n mod 3600 div 60) @ '':''
          @ format_0d 2 (n mod 60) @ '','' @ format_0d 3 0)"
  by (simp add: format_time.simps)

lemma format_time_nonneg:
  assumes "is_double x" "0 \<le> x"
  shows "\<exists>H. 0 \<le> H \<and> (x < 2 ^ 53 \<longrightarrow> H = \<lfloor>x\<rfloor> div 3600)
     \<and> format_time (PyFloat (Fin x)) =
         Inr (format_0d 2 H @ '':'' @ format_0d 2 (\<lfloor>x\<rfloor> mod 3600 div 60) @ '':''
              @ format_0d 2 (\<lfloor>x\<rfloor> mod 60) @ '',''
              @ format_0d 3 \<lfloor>round_rat ((x - of_int \<lfloor>x\<rfloor>) * 1000)\<rfloor>)"
proof -
  from float_floor_div_nonneg [OF assms(2), of 3600]
  obtain y where y: "float_floor_div (Fin x) 3600 = Fin y" "0 \<le> y" by auto
  define H where "H = \<lfloor>y\<rfloor>"
  have H0: "0 \<le> H" using y(2) by (simp add: H_def)
  have hours: "py_int (py_floordiv (PyFloat (Fin x)) 3600) = Inr H"
    by (simp add: y trunc_nonneg H_def)
  have Hx: "H = \<lfloor>x\<rfloor> div 3600" if "x < 2 ^ 53"
    using float_floor_div_exact [OF assms(2) that, of 3600] y(1) by (simp add: H_def)
  \<comment> \<open>minutes\<close>
  define r where "r = fmod x 3600"
  have r: "0 \<le> r" "r < of_int 3600" "\<lfloor>r\<rfloor> = \<lfloor>x\<rfloor> mod 3600"
    using fmod_range [OF assms(2), of 3600] by (simp_all add: r_def)
  have r53: "r < 2 ^ 53" using r(2) by simp
  have rem: "float_rem (Fin x) 3600 = Fin r"
    using float_rem_nonneg [OF assms(2), of 3600] by (simp add: r_def)
  have "float_floor_div (Fin r) 60 = Fin (of_int (\<lfloor>x\<rfloor> mod 3600 div 60))"
    using float_floor_div_exact [OF r(1) r53, of 60] by (simp add: r(3))
  moreover have "0 \<le> \<lfloor>x\<rfloor> mod 3600 div 60"
    by (simp add: pos_imp_zdiv_nonneg_iff)
  ultimately have minutes: "py_int (py_floordiv (py_mod (PyFloat (Fin x)) 3600) 60)
      = Inr (\<lfloor>x\<rfloor> mod 3600 div 60)"
    by (simp add: rem trunc_nonneg)
  \<comment> \<open>seconds\<close>
  define q where "q = fmod x 60"
  have q: "0 \<le> q" "\<lfloor>q\<rfloor> = \<lfloor>x\<rfloor> mod 60"
    using fmod_range [OF assms(2), of 60] by (simp_all add: q_def)
  have "float_rem (Fin x) 60 = Fin q"
    using float_rem_nonneg [OF assms(2), of 60] by (simp add: q_def)
  then have secs: "py_int (py_mod (PyFloat (Fin x)) 60) = Inr (\<lfloor>x\<rfloor> mod 60)"
    using q by (simp add: trunc_nonneg)
  \<comment> \<open>milliseconds\<close>
  define f where "f = x - of_int \<lfloor>x\<rfloor>"
  have f1: "fmod x 1 = f"
    using fmod_nonneg [OF assms(2), of 1] by (simp add: f_def)
  have f0: "0 \<le> f" by (simp add: f_def)
  have fu: "f \<le> 1 - 1 / 2 ^ 53" using is_double_frac [OF assms] by (simp add: f_def)
  have m1: "float_rem (Fin x) 1 = Fin f"
    using float_rem_nonneg [OF assms(2), of 1] by (simp add: f1)
  have millis: "py_int (py_mul (py_mod (PyFloat (Fin x)) 1) 1000) = Inr \<lfloor>round_rat (f * 1000)\<rfloor>"
    using millis_bounds(1,4) [OF f0 fu] by (simp add: m1 trunc_def)
  have "format_time (PyFloat (Fin x)) =
         Inr (format_0d 2 H @ '':'' @ format_0d 2 (\<lfloor>x\<rfloor> mod 3600 div 60) @ '':''
              @ format_0d 2 (\<lfloor>x\<rfloor> mod 60) @ '',''
              @ format_0d 3 \<lfloor>round_rat (f * 1000)\<rfloor>)"
    unfolding format_time.simps hours minutes secs millis by simp
  with H0 Hx show ?thesis unfolding f_def by blast
qed

lemma hms_sum: "(n::int) div 3600 * 3600 + n mod 3600 div 60 * 60 + n mod 60 = n"
proof -
  have "n mod 3600 mod 60 = n mod 60"
    by (rule mod_mod_cancel) simp
  then have "n mod 3600 div 60 * 60 + n mod 60 = n mod 3600"
    by (metis div_mult_mod_eq)
  then show ?thesis
    using div_mult_mod_eq [of n 3600] by linarith
qed

lemma truncate_ms_split:
  "truncate_ms x = of_int \<lfloor>x\<rfloor> + of_int \<lfloor>(x - of_int \<lfloor>x\<rfloor>) * 1000\<rfloor> / 1000"
proof -
  have "x * 1000 = (x - of_int \<lfloor>x\<rfloor>) * 1000 + of_int (\<lfloor>x\<rfloor> * 1000)"
    by (simp add: algebra_simps)
  then have "\<lfloor>x * 1000\<rfloor> = \<lfloor>(x - of_int \<lfloor>x\<rfloor>) * 1000\<rfloor> + \<lfloor>x\<rfloor> * 1000"
    by (metis floor_add_int)
  then show ?thesis
    by (simp add: truncate_ms_def add_divide_distrib)
qed

lemma floor_rat_numeral: "\<lfloor>numeral a / numeral b :: rat\<rfloor> = numeral a div numeral b"
  using floor_divide_of_int_eq [of "numeral a" "numeral b", where ?'a = rat] by simp

lemma replicate_two: "replicate 2 x = [x, x]"
  by (simp add: numeral_2_eq_2)

lemma max_double_ge_pow: "(2::rat) ^ 1023 \<le> max_double"
proof -
  have "(2 ^ 52 :: rat) * 2 ^ 971 \<le> (2 ^ 53 - 1) * 2 ^ 971"
    by (intro mult_right_mono) simp_all
  moreover have "(2 ^ 52 :: rat) * 2 ^ 971 = 2 ^ 1023"
    by (simp add: power_add [symmetric])
  ultimately show ?thesis by (simp only: max_double_def)
qed

lemma literal_eval:
  assumes "0 < x" "2 powi e \<le> x" "x < 2 powi (e + 1)" "- 1022 \<le> e" "e \<le> 1022"
    and "\<bar>x / 2 powi (e - 52) - of_int n\<bar> < 1 / 2"
    and "2 ^ 52 \<le> n" "n < 2 ^ 53"
    and "v = 2 powi (e - 52) * of_int n"
  shows "fl x = Fin v \<and> is_double v"
proof -
  have r: "round_rat x = v"
    unfolding assms(9) by (rule round_rat_eval [OF assms(1-4,6)])
  have u: "(0::rat) < 2 powi (e - 52)" by simp
  have "(of_int (2 ^ 52) :: rat) \<le> of_int n" using assms(7) by (simp only: of_int_le_iff)
  then have "2 powi (e - 52) * 2 ^ 52 \<le> v"
    unfolding assms(9) using u by simp
  moreover have p52: "(2::rat) powi (e - 52) * 2 ^ 52 = 2 powi e"
    using pow2_split [of "e - 52" 52] by simp
  ultimately have lo: "2 powi e \<le> v" by simp
  have "(of_int n :: rat) < of_int (2 ^ 53)" using assms(8) by (simp only: of_int_less_iff)
  then have "v < 2 powi (e - 52) * 2 ^ 53"
    unfolding assms(9) using u by simp
  moreover have "(2::rat) powi (e - 52) * 2 ^ 53 = 2 powi (e + 1)"
    using pow2_split [of "e - 52" 53] by (simp add: add.commute)
  ultimately have hi: "v < 2 powi (e + 1)" by simp
  have v0: "0 < v" using lo by (rule less_le_trans [rotated]) simp
  have rv: "round_rat v = v"
    by (rule round_rat_exact [OF v0 lo hi assms(4,9)])
  have "(2::rat) powi (e + 1) \<le> 2 powi 1023"
    using assms(5) by (intro pow2_mono) simp
  with hi max_double_ge_pow have vm: "v \<le> max_double" by simp
  have "fl x = Fin v"
    using vm v0 by (simp add: fl_def r Let_def)
  moreover have "is_double v"
    using vm v0 rv by (simp add: is_double_def)
  ultimately show ?thesis ..
qed

lemma format_time_eval:
  assumes "is_double x" "0 \<le> x" "x < 2 ^ 53" "\<lfloor>x\<rfloor> = n"
    and "round_rat ((x - of_int n) * 1000) = p" "\<lfloor>p\<rfloor> = ms"
  shows "format_time (PyFloat (Fin x)) =
     Inr (format_0d 2 (n div 3600) @ '':'' @ format_0d 2 (n mod 3600 div 60) @ '':''
          @ format_0d 2 (n mod 60) @ '','' @ format_0d 3 ms)"
  using format_time_nonneg [OF assms(1,2)] assms(3)
  unfolding assms(4) assms(5) assms(6) by auto

lemma literal_65_5:
  "fl (655 / 10) = Fin (131 / 2) \<and> is_double (131 / 2)"
  by (rule literal_eval [where e = "6" and n = 4609152743636992]) simp_all

lemma millis_65_5:
  "round_rat ((131 / 2 - of_int 65) * 1000) = 500"
proof -
  have "round_rat ((131 / 2 - of_int 65) * 1000) = 2 powi (8 - 52) * of_int 8796093022208000"
    by (rule round_rat_eval) simp_all
  also have "\<dots> = 500" by simp
  finally show ?thesis .
qed

lemma format_time_65_5:
  "format_time (PyFloat (fl (655 / 10))) = Inr ''00:01:05,500''"
proof -
  have l: "fl (655 / 10) = Fin (131 / 2)" and d: "is_double (131 / 2)"
    using literal_65_5 by blast+
  have f: "\<lfloor>131 / 2 :: rat\<rfloor> = 65" by (simp add: floor_rat_numeral)
  have m: "\<lfloor>500 :: rat\<rfloor> = 500" by (simp add: floor_rat_numeral)
  have "format_time (PyFloat (Fin (131 / 2))) =
      Inr (format_0d 2 (65 div 3600) @ '':'' @ format_0d 2 (65 mod 3600 div 60) @ '':''
           @ format_0d 2 (65 mod 60) @ '','' @ format_0d 3 500)"
    by (rule format_time_eval [OF d _ _ f millis_65_5 m]) simp_all
  then show ?thesis
    unfolding l by (simp add: format_0d_def zfill_def str_nat.simps digit_char_def replicate_two)
qed

lemma literal_3661_999:
  "fl (3661999 / 1000) = Fin (1006602620351021 / 274877906944) \<and> is_double (1006602620351021 / 274877906944)"
  by (rule literal_eval [where e = "11" and n = 8052820962808168]) simp_all

lemma millis_3661_999:
  "round_rat ((1006602620351021 / 274877906944 - of_int 3661) * 1000) = 34325378629625 / 34359738368"
proof -
  have "round_rat ((1006602620351021 / 274877906944 - of_int 3661) * 1000) = 2 powi (9 - 52) * of_int 8787296929184000"
    by (rule round_rat_eval) simp_all
  also have "\<dots> = 34325378629625 / 34359738368" by simp
  finally show ?thesis .
qed

lemma format_time_3661_999:
  "format_time (PyFloat (fl (3661999 / 1000))) = Inr ''01:01:01,998''"
proof -
  have l: "fl (3661999 / 1000) = Fin (1006602620351021 / 274877906944)" and d: "is_double (1006602620351021 / 274877906944)"
    using literal_3661_999 by blast+
  have f: "\<lfloor>1006602620351021 / 274877906944 :: rat\<rfloor> = 3661" by (simp add: floor_rat_numeral)
  have m: "\<lfloor>34325378629625 / 34359738368 :: rat\<rfloor> = 998" by (simp add: floor_rat_numeral)
  have "format_time (PyFloat (Fin (1006602620351021 / 274877906944))) =
      Inr (format_0d 2 (3661 div 3600) @ '':'' @ format_0d 2 (3661 mod 3600 div 60) @ '':''
           @ format_0d 2 (3661 mod 60) @ '','' @ format_0d 3 998)"
    by (rule format_time_eval [OF d _ _ f millis_3661_999 m]) simp_all
  then show ?thesis
    unfolding l by (simp add: format_0d_def zfill_def str_nat.simps digit_char_def replicate_two)
qed

lemma literal_3661_9999:
  "fl (36619999 / 10000) = Fin (4026411470964549 / 1099511627776) \<and> is_double (4026411470964549 / 1099511627776)"
  by (rule literal_eval [where e = "11" and n = 8052822941929098]) simp_all

lemma millis_3661_9999:
  "round_rat ((4026411470964549 / 1099511627776 - of_int 3661) * 1000) = 137425209576625 / 137438953472"
proof -
  have "round_rat ((4026411470964549 / 1099511627776 - of_int 3661) * 1000) = 2 powi (9 - 52) * of_int 8795213412904000"
    by (rule round_rat_eval) simp_all
  also have "\<dots> = 137425209576625 / 137438953472" by simp
  finally show ?thesis .
qed

lemma format_time_3661_9999:
  "format_time (PyFloat (fl (36619999 / 10000))) = Inr ''01:01:01,999''"
proof -
  have l: "fl (36619999 / 10000) = Fin (4026411470964549 / 1099511627776)" and d: "is_double (4026411470964549 / 1099511627776)"
    using literal_3661_9999 by blast+
  have f: "\<lfloor>4026411470964549 / 1099511627776 :: rat\<rfloor> = 3661" by (simp add: floor_rat_numeral)
  have m: "\<lfloor>137425209576625 / 137438953472 :: rat\<rfloor> = 999" by (simp add: floor_rat_numeral)
  have "format_time (PyFloat (Fin (4026411470964549 / 1099511627776))) =
      Inr (format_0d 2 (3661 div 3600) @ '':'' @ format_0d 2 (3661 mod 3600 div 60) @ '':''
           @ format_0d 2 (3661 mod 60) @ '','' @ format_0d 3 999)"
    by (rule format_time_eval [OF d _ _ f millis_3661_9999 m]) simp_all
  then show ?thesis
    unfolding l by (simp add: format_0d_def zfill_def str_nat.simps digit_char_def replicate_two)
qed

lemma literal_1_2:
  "fl (12 / 10) = Fin (5404319552844595 / 4503599627370496) \<and> is_double (5404319552844595 / 4503599627370496)"
  by (rule literal_eval [where e = "0" and n = 5404319552844595]) simp_all

lemma millis_1_2:
  "round_rat ((5404319552844595 / 4503599627370496 - of_int 1) * 1000) = 3518437208883199 / 17592186044416"
proof -
  have "round_rat ((5404319552844595 / 4503599627370496 - of_int 1) * 1000) = 2 powi (7 - 52) * of_int 7036874417766398"
    by (rule round_rat_eval) simp_all
  also have "\<dots> = 3518437208883199 / 17592186044416" by simp
  finally show ?thesis .
qed

lemma format_time_1_2:
  "format_time (PyFloat (fl (12 / 10))) = Inr ''00:00:01,199''"
proof -
  have l: "fl (12 / 10) = Fin (5404319552844595 / 4503599627370496)" and d: "is_double (5404319552844595 / 4503599627370496)"
    using literal_1_2 by blast+
  have f: "\<lfloor>5404319552844595 / 4503599627370496 :: rat\<rfloor> = 1" by (simp add: floor_rat_numeral)
  have m: "\<lfloor>3518437208883199 / 17592186044416 :: rat\<rfloor> = 199" by (simp add: floor_rat_numeral)
  have "format_time (PyFloat (Fin (5404319552844595 / 4503599627370496))) =
      Inr (format_0d 2 (1 div 3600) @ '':'' @ format_0d 2 (1 mod 3600 div 60) @ '':''
           @ format_0d 2 (1 mod 60) @ '','' @ format_0d 3 199)"
    by (rule format_time_eval [OF d _ _ f millis_1_2 m]) simp_all
  then show ?thesis
    unfolding l by (simp add: format_0d_def zfill_def str_nat.simps digit_char_def replicate_two)
qed

lemma literal_0_009:
  "fl (9 / 1000) = Fin (5188146770730811 / 576460752303423488) \<and> is_double (5188146770730811 / 576460752303423488)"
  by (rule literal_eval [where e = "-7" and n = 5188146770730811]) simp_all

lemma millis_0_009:
  "round_rat ((5188146770730811 / 576460752303423488 - of_int 0) * 1000) = 9"
proof -
  have "round_rat ((5188146770730811 / 576460752303423488 - of_int 0) * 1000) = 2 powi (3 - 52) * of_int 5066549580791808"
    by (rule round_rat_eval) simp_all
  also have "\<dots> = 9" by simp
  finally show ?thesis .
qed

lemma format_time_0_009:
  "format_time (PyFloat (fl (9 / 1000))) = Inr ''00:00:00,009''"
proof -
  have l: "fl (9 / 1000) = Fin (5188146770730811 / 576460752303423488)" and d: "is_double (5188146770730811 / 576460752303423488)"
    using literal_0_009 by blast+
  have f: "\<lfloor>5188146770730811 / 576460752303423488 :: rat\<rfloor> = 0" by (simp add: floor_rat_numeral)
  have m: "\<lfloor>9 :: rat\<rfloor> = 9" by (simp add: floor_rat_numeral)
  have "format_time (PyFloat (Fin (5188146770730811 / 576460752303423488))) =
      Inr (format_0d 2 (0 div 3600) @ '':'' @ format_0d 2 (0 mod 3600 div 60) @ '':''
           @ format_0d 2 (0 mod 60) @ '','' @ format_0d 3 9)"
    by (rule format_time_eval [OF d _ _ f millis_0_009 m]) simp_all
  then show ?thesis
    unfolding l by (simp add: format_0d_def zfill_def str_nat.simps digit_char_def replicate_two)
qed

lemma format_time_zero: "format_time (PyInt 0) = Inr ''00:00:00,000''"
  by (simp add: format_time_int format_0d_def zfill_def str_nat.simps digit_char_def replicate_two)

lemma fl_zero: "fl 0 = Fin 0"
  by (simp add: fl_def round_rat_def max_double_def)

lemma format_time_float_zero: "format_time (PyFloat (fl 0)) = Inr ''00:00:00,000''"
proof -
  have d: "is_double 0" by (simp add: is_double_def round_rat_def max_double_def)
  have z: "round_rat ((0 - of_int 0) * 1000) = 0" by (simp add: round_rat_def)
  have "format_time (PyFloat (Fin 0)) =
      Inr (format_0d 2 (0 div 3600) @ '':'' @ format_0d 2 (0 mod 3600 div 60) @ '':''
           @ format_0d 2 (0 mod 60) @ '','' @ format_0d 3 0)"
    by (rule format_time_eval [OF d _ _ _ z]) simp_all
  then show ?thesis
    unfolding fl_zero by (simp add: format_0d_def zfill_def str_nat.simps digit_char_def replicate_two)
qed

lemma format_time_float_pattern:
  assumes "is_double s" "0 \<le> s"
  shows "\<exists>t. format_time (PyFloat (Fin s)) = Inr t \<and> matches_srt_time t
      \<and> (s < 2 ^ 53 \<longrightarrow>
           rederive_seconds t =
             of_int \<lfloor>s\<rfloor> + of_int \<lfloor>round_rat ((s - of_int \<lfloor>s\<rfloor>) * 1000)\<rfloor> / 1000
           \<and> (rederive_seconds t = truncate_ms s \<or> rederive_seconds t = truncate_ms s + 1 / 1000))"
proof -
  define n where "n = \<lfloor>s\<rfloor>"
  define f where "f = s - of_int \<lfloor>s\<rfloor>"
  define ms where "ms = \<lfloor>round_rat (f * 1000)\<rfloor>"
  from format_time_nonneg [OF assms] obtain H where
    H: "0 \<le> H" "s < 2 ^ 53 \<longrightarrow> H = n div 3600"
    and t: "format_time (PyFloat (Fin s)) =
         Inr (format_0d 2 H @ '':'' @ format_0d 2 (n mod 3600 div 60) @ '':''
              @ format_0d 2 (n mod 60) @ '','' @ format_0d 3 ms)"
    unfolding n_def ms_def f_def by blast
  define M where "M = n mod 3600 div 60"
  define S where "S = n mod 60"
  have n0: "0 \<le> n" using assms(2) by (simp add: n_def)
  have M: "0 \<le> M" "M < 10 ^ 2"
  proof -
    show "0 \<le> M" by (simp add: M_def pos_imp_zdiv_nonneg_iff)
    have "n mod 3600 < 3600" by simp
    moreover have "60 * (n mod 3600 div 60) \<le> n mod 3600"
      by (rule div_mod_bounds(1)) simp
    ultimately have "n mod 3600 div 60 < 60" by linarith
    then show "M < 10 ^ 2" by (simp add: M_def)
  qed
  have S: "0 \<le> S" "S < 10 ^ 2"
  proof -
    show "0 \<le> S" by (simp add: S_def)
    have "n mod 60 < 60" by simp
    then show "S < 10 ^ 2" by (simp add: S_def)
  qed
  have f0: "0 \<le> f" by (simp add: f_def)
  have fu: "f \<le> 1 - 1 / 2 ^ 53" using is_double_frac [OF assms] by (simp add: f_def)
  note mb = millis_bounds [OF f0 fu]
  have ms: "0 \<le> ms" "ms < 10 ^ 3"
    using mb(4,5) by (simp_all add: ms_def)
  define t' where "t' = format_0d 2 H @ '':'' @ format_0d 2 M @ '':'' @ format_0d 2 S @ '','' @ format_0d 3 ms"
  have tt: "format_time (PyFloat (Fin s)) = Inr t'"
    by (simp add: t t'_def M_def S_def)
  note fH = format_0d_field [OF H(1), of 2]
  note fM = format_0d_field [OF M(1), of 2]
  note fS = format_0d_field [OF S(1), of 2]
  note fms = format_0d_field [OF ms(1), of 3]
  note sp = split_time_stamp [OF fH(1) fM(1) fS(1) fms(1)]
  have match: "matches_srt_time t'"
    using sp fH(1,2) fM(1) fM(4) [OF M(2)] fS(1) fS(4) [OF S(2)] fms(1) fms(4) [OF ms(2)]
    by (simp add: matches_srt_time_def t'_def)
  have red: "rederive_seconds t' = of_nat (nat H) * 3600 + of_nat (nat M) * 60 + of_nat (nat S)
      + of_nat (nat ms) / 1000"
    using sp by (simp add: rederive_seconds_def t'_def fH(3) fM(3) fS(3) fms(3))
  have val: "rederive_seconds t' = of_int n + of_int ms / 1000
       \<and> (rederive_seconds t' = truncate_ms s \<or> rederive_seconds t' = truncate_ms s + 1 / 1000)"
    if "s < 2 ^ 53"
  proof -
    from that H(2) have Hn: "H = n div 3600" by simp
    have "H * 3600 + M * 60 + S = n"
      unfolding Hn M_def S_def by (rule hms_sum)
    then have "(of_int (H * 3600 + M * 60 + S) :: rat) = of_int n" by simp
    then have hms: "(of_int H :: rat) * 3600 + of_int M * 60 + of_int S = of_int n" by simp
    have r: "rederive_seconds t' = of_int n + of_int ms / 1000"
      unfolding red using H(1) M(1) S(1) ms(1) hms by simp
    have tr: "truncate_ms s = of_int n + of_int \<lfloor>f * 1000\<rfloor> / 1000"
      unfolding truncate_ms_split n_def f_def ..
    have "ms = \<lfloor>f * 1000\<rfloor> \<or> ms = \<lfloor>f * 1000\<rfloor> + 1"
      using mb(2,3) unfolding ms_def by linarith
    then have "rederive_seconds t' = truncate_ms s \<or> rederive_seconds t' = truncate_ms s + 1 / 1000"
      unfolding r tr by (auto simp: add_divide_distrib)
    with r show ?thesis by blast
  qed
  show ?thesis
    using tt match val unfolding n_def ms_def f_def by blast
qed

lemma format_time_int_pattern:
  assumes "0 \<le> n"
  shows "\<exists>t. format_time (PyInt n) = Inr t \<and> matches_srt_time t \<and> rederive_seconds t = of_int n"
proof -
  define H where "H = n div 3600"
  define M where "M = n mod 3600 div 60"
  define S where "S = n mod 60"
  have H: "0 \<le> H" using assms by (simp add: H_def pos_imp_zdiv_nonneg_iff)
  have M: "0 \<le> M" "M < 10 ^ 2"
  proof -
    show "0 \<le> M" by (simp add: M_def pos_imp_zdiv_nonneg_iff)
    have "n mod 3600 < 3600" by simp
    moreover have "60 * (n mod 3600 div 60) \<le> n mod 3600"
      by (rule div_mod_bounds(1)) simp
    ultimately have "n mod 3600 div 60 < 60" by linarith
    then show "M < 10 ^ 2" by (simp add: M_def)
  qed
  have S: "0 \<le> S" "S < 10 ^ 2"
  proof -
    show "0 \<le> S" by (simp add: S_def)
    have "n mod 60 < 60" by simp
    then show "S < 10 ^ 2" by (simp add: S_def)
  qed
  have ms: "(0::int) \<le> 0" "(0::int) < 10 ^ 3" by simp_all
  define t where "t = format_0d 2 H @ '':'' @ format_0d 2 M @ '':'' @ format_0d 2 S @ '','' @ format_0d 3 0"
  have tt: "format_time (PyInt n) = Inr t"
    by (simp add: format_time_int t_def H_def M_def S_def)
  note fH = format_0d_field [OF H, of 2]
  note fM = format_0d_field [OF M(1), of 2]
  note fS = format_0d_field [OF S(1), of 2]
  note fms = format_0d_field [OF ms(1), of 3]
  note sp = split_time_stamp [OF fH(1) fM(1) fS(1) fms(1)]
  have match: "matches_srt_time t"
    using sp fH(1,2) fM(1) fM(4) [OF M(2)] fS(1) fS(4) [OF S(2)] fms(1) fms(4) [OF ms(2)]
    by (simp add: matches_srt_time_def t_def)
  have red: "rederive_seconds t = of_nat (nat H) * 3600 + of_nat (nat M) * 60 + of_nat (nat S)"
    using sp by (simp add: rederive_seconds_def t_def fH(3) fM(3) fS(3) fms(3))
  have "H * 3600 + M * 60 + S = n"
    unfolding H_def M_def S_def by (rule hms_sum)
  then have "(of_int (H * 3600 + M * 60 + S) :: rat) = of_int n" by simp
  then have hms: "(of_int H :: rat) * 3600 + of_int M * 60 + of_int S = of_int n" by simp
  have "rederive_seconds t = of_int n"
    unfolding red using H M(1) S(1) hms by simp
  with tt match show ?thesis by blast
qed

text \<open>
  C2, as the code has it. For every finite float \<open>s \<ge> 0\<close>, \<open>format_time\<close> returns a string
  that matches \<open>\d{2,}:\d{2}:\d{2},\d{3}\<close>. Below \<open>2^53\<close> the hours, minutes and seconds it
  shows add up to the whole seconds of \<open>s\<close>, and the milliseconds are the product of the
  fractional part with 1000, rounded to a float and then truncated; so the seconds read
  back from the string are \<open>s\<close> truncated to milliseconds, or one millisecond more when the
  rounding of the product reached the next integer. For an \<open>int\<close> \<open>n \<ge> 0\<close> the string matches
  the pattern and reads back as \<open>n\<close>.
\<close>

theorem format_time_pattern:
  "(is_double s \<and> 0 \<le> s \<longrightarrow>
      (\<exists>t. format_time (PyFloat (Fin s)) = Inr t \<and> matches_srt_time t
         \<and> (s < 2 ^ 53 \<longrightarrow>
              rederive_seconds t =
                of_int \<lfloor>s\<rfloor> + of_int \<lfloor>round_rat ((s - of_int \<lfloor>s\<rfloor>) * 1000)\<rfloor> / 1000
              \<and> (rederive_seconds t = truncate_ms s
                   \<or> rederive_seconds t = truncate_ms s + 1 / 1000))))
   \<and> (0 \<le> n \<longrightarrow>
      (\<exists>t. format_time (PyInt n) = Inr t \<and> matches_srt_time t
         \<and> rederive_seconds t = of_int n))"
  using format_time_float_pattern [of s] format_time_int_pattern [of n] by blast

theorem format_time_pattern_witness:
  "(\<exists>t. format_time (PyFloat (fl (655 / 10))) = Inr t \<and> matches_srt_time t
      \<and> rederive_seconds t = of_int \<lfloor>131 / 2 :: rat\<rfloor>
            + of_int \<lfloor>round_rat ((131 / 2 - of_int \<lfloor>131 / 2 :: rat\<rfloor>) * 1000)\<rfloor> / 1000
      \<and> (rederive_seconds t = truncate_ms (131 / 2)
           \<or> rederive_seconds t = truncate_ms (131 / 2) + 1 / 1000))
   \<and> (\<exists>t. format_time (PyInt 3661) = Inr t \<and> matches_srt_time t
          \<and> rederive_seconds t = 3661)"
proof -
  have l: "fl (655 / 10) = Fin (131 / 2)" and d: "is_double (131 / 2)"
    using literal_65_5 by blast+
  have p: "is_double (131 / 2) \<and> (0::rat) \<le> 131 / 2" using d by simp
  have b: "(131 / 2 :: rat) < 2 ^ 53" by simp
  have n: "(0::int) \<le> 3661" by simp
  note t = format_time_pattern [of "131 / 2" 3661]
  from t [THEN conjunct1, rule_format, OF p] b
  have 1: "\<exists>t. format_time (PyFloat (fl (655 / 10))) = Inr t \<and> matches_srt_time t
      \<and> rederive_seconds t = of_int \<lfloor>131 / 2 :: rat\<rfloor>
            + of_int \<lfloor>round_rat ((131 / 2 - of_int \<lfloor>131 / 2 :: rat\<rfloor>) * 1000)\<rfloor> / 1000
      \<and> (rederive_seconds t = truncate_ms (131 / 2)
           \<or> rederive_seconds t = truncate_ms (131 / 2) + 1 / 1000)"
    unfolding l by blast
  from t [THEN conjunct2, rule_format, OF n]
  have 2: "\<exists>t. format_time (PyInt 3661) = Inr t \<and> matches_srt_time t \<and> rederive_seconds t = 3661"
    by simp
  from 1 2 show ?thesis ..
qed

text \<open>
  The float nearest to 0.009 lies below 0.009, so that truncated to milliseconds it is
  0.008; its product with 1000 rounds to 9, and the string reads back as 0.009.
\<close>

theorem format_time_pattern_counterexample:
  "fl (9 / 1000) = Fin (5188146770730811 / 576460752303423488)
   \<and> format_time (PyFloat (fl (9 / 1000))) = Inr ''00:00:00,009''
   \<and> rederive_seconds ''00:00:00,009'' = 9 / 1000
   \<and> truncate_ms (5188146770730811 / 576460752303423488) = 8 / 1000
   \<and> rederive_seconds ''00:00:00,009'' \<noteq> truncate_ms (5188146770730811 / 576460752303423488)"
proof -
  have 1: "fl (9 / 1000) = Fin (5188146770730811 / 576460752303423488)"
    using literal_0_009 by blast
  have 2: "rederive_seconds ''00:00:00,009'' = 9 / 1000"
    by (simp add: rederive_seconds_def nat_of_digits_def digit_value_def)
  have 3: "truncate_ms (5188146770730811 / 576460752303423488) = 8 / 1000"
    by (simp add: truncate_ms_def floor_rat_numeral)
  show ?thesis
    using 1 2 3 format_time_0_009 by simp
qed

lemma literal_1e20: "fl (10 ^ 20) = Fin (10 ^ 20) \<and> is_double (10 ^ 20)"
  by (rule literal_eval [where e = 66 and n = 6103515625000000]) simp_all

lemma fmod_1e20: "fmod (10 ^ 20) 3600 = 2800"
  using fmod_nonneg [of "10 ^ 20" 3600] by simp

lemma round_1e20_a: "round_rat (10 ^ 20 - 2800) = 10 ^ 20"
proof -
  have "round_rat (10 ^ 20 - 2800) = 2 powi (66 - 52) * of_int 6103515625000000"
    by (rule round_rat_eval) simp_all
  also have "\<dots> = 10 ^ 20" by simp
  finally show ?thesis .
qed

lemma round_1e20_b: "round_rat (10 ^ 20 / 3600) = 27777777777777776"
proof -
  have "round_rat (10 ^ 20 / 3600) = 2 powi (54 - 52) * of_int 6944444444444444"
    by (rule round_rat_eval) simp_all
  also have "\<dots> = 27777777777777776" by simp
  finally show ?thesis .
qed

lemma float_floor_div_1e20:
  "float_floor_div (Fin (10 ^ 20)) 3600 = Fin 27777777777777776"
proof -
  have z: "round_rat 0 = 0" by (simp add: round_rat_def)
  show ?thesis
    using fmod_1e20 round_1e20_a round_1e20_b z
    by (simp add: float_floor_div_def Let_def)
qed

text \<open>
  Above \<open>2^53\<close> the quotient of the floor division is a rounded one: for \<open>10^20\<close> seconds the
  hours shown are one less than the hours in \<open>10^20\<close> seconds.
\<close>

lemma format_time_1e20:
  "format_time (PyFloat (fl (10 ^ 20))) = Inr ''27777777777777776:46:40,000''
   \<and> rederive_seconds ''27777777777777776:46:40,000'' = 10 ^ 20 - 3600"
proof -
  have l: "fl (10 ^ 20) = Fin (10 ^ 20)" using literal_1e20 by blast
  have p: "(0::rat) \<le> 10 ^ 20" by simp
  have r: "float_rem (Fin (10 ^ 20)) 3600 = Fin 2800"
    using float_rem_nonneg [OF p, of 3600] fmod_1e20 by simp
  have m: "float_floor_div (Fin 2800) 60 = Fin 46"
    using float_floor_div_exact [of 2800 60] by simp
  have s: "float_rem (Fin (10 ^ 20)) 60 = Fin 40"
    using float_rem_nonneg [OF p, of 60] fmod_nonneg [of "10 ^ 20" 60] by simp
  have f: "float_rem (Fin (10 ^ 20)) 1 = Fin 0"
    using float_rem_nonneg [OF p, of 1] fmod_nonneg [of "10 ^ 20" 1] by simp
  have ms: "float_mul (Fin 0) 1000 = Fin 0"
    using fl_zero by (simp add: float_mul_def)
  have "format_time (PyFloat (Fin (10 ^ 20))) = Inr ''27777777777777776:46:40,000''"
    using float_floor_div_1e20 r m s f ms
    by (simp add: format_time.simps trunc_def format_0d_def zfill_def
        str_nat.simps digit_char_def replicate_two)
  moreover have "rederive_seconds ''27777777777777776:46:40,000'' = 10 ^ 20 - 3600"
    by (simp add: rederive_seconds_def nat_of_digits_def digit_value_def)
  ultimately show ?thesis unfolding l by simp
qed

text \<open>
  C3, as the code has it. \<open>format_time\<close> gives \<open>00:00:00,000\<close> for 0, \<open>00:01:05,500\<close> for
  65.5 and \<open>01:01:01,999\<close> for 3661.9999, and it gives \<open>01:01:01,998\<close> for 3661.999: the
  float nearest to 3661.999 lies below it, and the milliseconds are truncated, not rounded.
\<close>

theorem format_time_examples:
  "format_time (PyInt 0) = Inr ''00:00:00,000''
   \<and> format_time (PyFloat (fl 0)) = Inr ''00:00:00,000''
   \<and> format_time (PyFloat (fl (655 / 10))) = Inr ''00:01:05,500''
   \<and> format_time (PyFloat (fl (36619999 / 10000))) = Inr ''01:01:01,999''
   \<and> format_time (PyFloat (fl (3661999 / 1000))) = Inr ''01:01:01,998''"
  using format_time_zero format_time_float_zero format_time_65_5 format_time_3661_9999
    format_time_3661_999 by simp

text \<open>The time stamp of 3661.999 is not \<open>01:01:01,999\<close>.\<close>

theorem format_time_examples_counterexample:
  "format_time (PyFloat (fl (3661999 / 1000))) \<noteq> Inr ''01:01:01,999''"
  using format_time_3661_999 by simp

section \<open>The transcript formatter: properties\<close>

lemma format_srt_loop_concat:
  "format_srt_loop acc i segs =
     (case concat_blocks (map (\<lambda>k. format_segment (i + int k) (segs ! k)) [0..<length segs]) of
        Inl e \<Rightarrow> Inl e
      | Inr t \<Rightarrow> Inr (acc @ t))"
proof (induction segs arbitrary: acc i)
  case Nil
  show ?case by simp
next
  case (Cons seg segs)
  have idx: "map (\<lambda>k. format_segment (i + int k) ((seg # segs) ! k)) [0..<length (seg # segs)]
      = format_segment i seg # map (\<lambda>k. format_segment (i + 1 + int k) (segs ! k)) [0..<length segs]"
    by (simp add: upt_conv_Cons map_Suc_upt [symmetric] algebra_simps del: upt_Suc)
  show ?case
    unfolding idx
    by (cases "format_segment i seg") (simp_all add: Cons.IH split: sum.splits)
qed

lemma format_segment_more:
  "format_segment i (seg :: 'a segment_scheme) = format_segment i (segment.truncate seg)"
  by (simp add: format_segment_def segment.truncate_def split: sum.splits)

text \<open>
  C5. \<open>format_srt\<close> returns the concatenation of \<open>format_segment (k + 1) s\<close> for the segments
  \<open>s\<close> at the positions \<open>k\<close> of the input, in the order of the input; the index is the position
  plus one whatever else the segment holds, every segment gives exactly one block, and the
  empty sequence gives the empty string.
\<close>

theorem format_srt_concat:
  "format_srt (segs :: 'a segment_scheme list) =
     concat_blocks (map (\<lambda>k. format_segment (int k + 1) (segment.truncate (segs ! k))) [0..<length segs])
   \<and> length (map (\<lambda>k. format_segment (int k + 1) (segment.truncate (segs ! k))) [0..<length segs])
       = length segs
   \<and> format_srt ([] :: 'a segment_scheme list) = Inr []"
proof -
  have "format_srt segs =
     concat_blocks (map (\<lambda>k. format_segment (1 + int k) (segs ! k)) [0..<length segs])"
    unfolding format_srt_def format_srt_loop_concat [of "[]" 1 segs]
    by (simp split: sum.splits)
  also have "map (\<lambda>k. format_segment (1 + int k) (segs ! k)) [0..<length segs]
      = map (\<lambda>k. format_segment (int k + 1) (segment.truncate (segs ! k))) [0..<length segs]"
    by (simp add: format_segment_more [symmetric] add.commute)
  finally show ?thesis
    by (simp add: format_srt_def)
qed

lemma strip_hi: "strip '' hi '' = ''hi''"
  by (simp add: strip_def lstrip_def rstrip_def strip_leading.simps match_len_def py_whitespace_def)

text \<open>
  C4, as the code has it. \<open>format_srt\<close> of the one segment from 0 to 1.2 with the text
  \<open>" hi "\<close> is the index line \<open>1\<close>, the line \<open>00:00:00,000 --> 00:00:01,199\<close>, the trimmed
  text \<open>hi\<close> and an empty line: the float nearest to 1.2 lies below it, and its milliseconds
  are truncated to 199.
\<close>

theorem format_srt_example:
  "format_srt [\<lparr>seg_start = PyInt 0, seg_end = PyFloat (fl (12 / 10)), seg_text = '' hi ''\<rparr>] =
     Inr (''1'' @ [CHR 0x0A] @ ''00:00:00,000 --> 00:00:01,199'' @ [CHR 0x0A] @ ''hi''
          @ [CHR 0x0A, CHR 0x0A])"
  using format_time_1_2
  by (simp add: format_srt_def format_segment_def format_time_zero strip_hi
      str_int_def str_nat.simps digit_char_def)

text \<open>The end of that segment is not printed as \<open>00:00:01,200\<close>.\<close>

theorem format_srt_example_counterexample:
  "format_srt [\<lparr>seg_start = PyInt 0, seg_end = PyFloat (fl (12 / 10)), seg_text = '' hi ''\<rparr>] \<noteq>
     Inr (''1'' @ [CHR 0x0A] @ ''00:00:00,000 --> 00:00:01,200'' @ [CHR 0x0A] @ ''hi''
          @ [CHR 0x0A, CHR 0x0A])"
  using format_time_1_2
  by (simp add: format_srt_def format_segment_def format_time_zero strip_hi
      str_int_def str_nat.simps digit_char_def)

lemma summary_no_newline: "CHR 0x0A \<notin> set (summary_line k)"
  using str_int_no_newline [of k] by (simp add: summary_line_def)

lemma str_nat_digit: "n < 10 \<Longrightarrow> str_nat n = [digit_char n]"
  by (simp add: str_nat.simps)

text \<open>
  C6, as the code has it. When the text has at most \<open>n\<close> lines, \<open>preview_srt\<close> returns it
  unchanged. Otherwise, for \<open>0 \<le> n\<close>, it returns the first \<open>n\<close> lines joined by line breaks,
  then two line breaks, then the summary line that states the number of lines left out,
  the number of lines minus \<open>n\<close>. For \<open>1 \<le> n\<close> the two line breaks end the last line and make
  one empty line, so that the result has \<open>n\<close> lines, one empty line and the summary line; for
  \<open>n = 0\<close> it has two empty lines and the summary line.
\<close>

theorem preview_srt_lines:
  "(int (length (py_split (CHR 0x0A) content)) \<le> n \<longrightarrow> preview_srt content n = content)
   \<and> (0 \<le> n \<and> n < int (length (py_split (CHR 0x0A) content)) \<longrightarrow>
        preview_srt content n =
          py_join [CHR 0x0A] (take (nat n) (py_split (CHR 0x0A) content)) @ [CHR 0x0A, CHR 0x0A]
          @ summary_line (int (length (py_split (CHR 0x0A) content)) - n)
        \<and> (1 \<le> n \<longrightarrow>
             py_split (CHR 0x0A) (preview_srt content n) =
               take (nat n) (py_split (CHR 0x0A) content)
               @ [[], summary_line (int (length (py_split (CHR 0x0A) content)) - n)]
             \<and> int (length (py_split (CHR 0x0A) (preview_srt content n))) = n + 1 + 1)
        \<and> (n = 0 \<longrightarrow>
             py_split (CHR 0x0A) (preview_srt content n) =
               [[], [], summary_line (int (length (py_split (CHR 0x0A) content)))]))"
proof (intro conjI impI)
  assume "int (length (py_split (CHR 0x0A) content)) \<le> n"
  then show "preview_srt content n = content"
    by (simp add: preview_srt_def)
next
  let ?lines = "py_split (CHR 0x0A) content"
  let ?s = "summary_line (int (length ?lines) - n)"
  assume a: "0 \<le> n \<and> n < int (length ?lines)"
  then show p: "preview_srt content n = py_join [CHR 0x0A] (take (nat n) ?lines) @ [CHR 0x0A, CHR 0x0A] @ ?s"
    by (simp add: preview_srt_def slice_to_def summary_line_def Let_def)
  have sp: "py_split (CHR 0x0A) (preview_srt content n) =
      py_split (CHR 0x0A) (py_join [CHR 0x0A] (take (nat n) ?lines)) @ [[], ?s]"
    unfolding p
    using py_split_append [of "CHR 0x0A" "py_join [CHR 0x0A] (take (nat n) ?lines)" "CHR 0x0A # ?s"]
      summary_no_newline [of "int (length ?lines) - n"]
    by (simp add: py_split_no_sep)
  {
    assume n1: "1 \<le> n"
    have ne: "take (nat n) ?lines \<noteq> []"
      using n1 py_split_not_Nil [of "CHR 0x0A" content] by simp
    have ns: "\<forall>l \<in> set (take (nat n) ?lines). CHR 0x0A \<notin> set l"
      using py_split_lines_no_sep [of _ "CHR 0x0A" content] by (auto dest: in_set_takeD)
    show s1: "py_split (CHR 0x0A) (preview_srt content n) = take (nat n) ?lines @ [[], ?s]"
      unfolding sp py_split_join [OF ne ns] ..
    show "int (length (py_split (CHR 0x0A) (preview_srt content n))) = n + 1 + 1"
    proof -
      from a have "nat n \<le> length ?lines" by linarith
      then show ?thesis
        unfolding s1 using a by (simp add: min_absorb2)
    qed
  }
  {
    assume n0: "n = 0"
    show "py_split (CHR 0x0A) (preview_srt content n) = [[], [], summary_line (int (length ?lines))]"
      unfolding sp by (simp add: n0)
  }
qed

theorem preview_srt_lines_witness:
  "preview_srt ''a'' 1 = ''a''
   \<and> preview_srt (''a'' @ [CHR 0x0A] @ ''b'' @ [CHR 0x0A] @ ''c'') 2
       = ''a'' @ [CHR 0x0A] @ ''b'' @ [CHR 0x0A, CHR 0x0A] @ ''... (1 more lines)''
   \<and> length (py_split (CHR 0x0A) (preview_srt (''a'' @ [CHR 0x0A] @ ''b'' @ [CHR 0x0A] @ ''c'') 2)) = 4"
proof -
  let ?c = "''a'' @ [CHR 0x0A] @ ''b'' @ [CHR 0x0A] @ ''c''"
  have la: "py_split (CHR 0x0A) ''a'' = [''a'']" by simp
  have lc: "py_split (CHR 0x0A) ?c = [''a'', ''b'', ''c'']" by simp
  have s1: "summary_line 1 = ''... (1 more lines)''"
    by (simp add: summary_line_def str_int_def str_nat_digit digit_char_def)
  have 1: "preview_srt ''a'' 1 = ''a''"
    using preview_srt_lines [of "''a''" 1, THEN conjunct1] by (simp add: la)
  note t = preview_srt_lines [of ?c 2, THEN conjunct2, unfolded lc]
  have h: "0 \<le> (2::int) \<and> 2 < int (length [''a'', ''b'', ''c''])" by simp
  from t [rule_format, OF h]
  have 2: "preview_srt ?c 2 = ''a'' @ [CHR 0x0A] @ ''b'' @ [CHR 0x0A, CHR 0x0A] @ ''... (1 more lines)''"
    and 3: "int (length (py_split (CHR 0x0A) (preview_srt ?c 2))) = 2 + 1 + 1"
    by (simp_all add: s1)
  from 1 2 3 show ?thesis by simp
qed

text \<open>
  The preview of three lines cut to one has three lines, not one and two empty lines and
  a summary line.
\<close>

theorem preview_srt_lines_counterexample:
  "preview_srt (''a'' @ [CHR 0x0A] @ ''b'' @ [CHR 0x0A] @ ''c'') 1
       = ''a'' @ [CHR 0x0A, CHR 0x0A] @ ''... (2 more lines)''
   \<and> py_split (CHR 0x0A) (preview_srt (''a'' @ [CHR 0x0A] @ ''b'' @ [CHR 0x0A] @ ''c'') 1)
       = [''a'', [], ''... (2 more lines)'']
   \<and> length (py_split (CHR 0x0A) (preview_srt (''a'' @ [CHR 0x0A] @ ''b'' @ [CHR 0x0A] @ ''c'') 1))
       \<noteq> 1 + 2 + 1"
  by (simp add: preview_srt_def slice_to_def str_int_def str_nat_digit digit_char_def)

section \<open>The configuration and the orchestrator: properties\<close>

text \<open>
  C7. When \<open>transcribe\<close> reaches the engine (the path exists, the handle is loaded or its
  loading succeeds), the parameter mapping \<open>params\<close> it passes is the merge of the exported
  configuration with the overrides: every key of the overrides has the override's value,
  whether the export holds the key or not, and every other key has what the export gives it.
  The configuration is the object that the generator holds, in whatever store \<open>cfgs\<close>.
\<close>

theorem transcribe_merge:
  assumes "file_exists p"
    and "gen_model self = Some h \<or> gen_model self = None \<and> load_step eng (gen_model_size self) = Inr h"
  shows "\<exists>params. 
     transcribe eng file_exists cfgs p kwargs (self, calls) =
       (run_step eng h p params,
        (self\<lparr>gen_model := Some h\<rparr>,
         calls @ (if gen_model self = None then [LoadCall (gen_model_size self)] else [])
               @ [RunCall h p params]))
     \<and> (\<forall>k v. kwargs k = Some v \<longrightarrow> params k = Some v)
     \<and> (\<forall>k. kwargs k = None \<longrightarrow> params k = to_whisper_params (cfgs (gen_config self)) k)"
proof -
  let ?params = "to_whisper_params (cfgs (gen_config self)) ++ kwargs"
  have "transcribe eng file_exists cfgs p kwargs (self, calls) =
       (run_step eng h p ?params,
        (self\<lparr>gen_model := Some h\<rparr>,
         calls @ (if gen_model self = None then [LoadCall (gen_model_size self)] else [])
               @ [RunCall h p ?params]))"
    using assms by (auto simp: transcribe_def load_model_def Let_def)
  moreover have "\<forall>k v. kwargs k = Some v \<longrightarrow> ?params k = Some v"
    by (simp add: map_add_Some_iff)
  moreover have "\<forall>k. kwargs k = None \<longrightarrow> ?params k = to_whisper_params (cfgs (gen_config self)) k"
    by (simp add: map_add_def)
  ultimately show ?thesis by blast
qed

theorem transcribe_merge_witness:
  "\<exists>params.
     transcribe test_engine (\<lambda>p. True) module_store ''a.mp4''
       [''task'' \<mapsto> PStr ''translate'', ''fp16'' \<mapsto> PBool False]
       (new_SubtitleGenerator ''turbo'' None, []) =
       (Inr \<lparr>res_text = [], res_segments = [], res_language = []\<rparr>,
        (new_SubtitleGenerator ''turbo'' None\<lparr>gen_model := Some 7\<rparr>,
         [LoadCall ''turbo'', RunCall 7 ''a.mp4'' params]))
     \<and> params ''task'' = Some (PStr ''translate'')
     \<and> params ''fp16'' = Some (PBool False)
     \<and> params ''language'' = Some (PStr ''sk'')"
proof -
  let ?kw = "[''task'' \<mapsto> PStr ''translate'', ''fp16'' \<mapsto> PBool False]"
  let ?g = "new_SubtitleGenerator ''turbo'' None :: nat SubtitleGenerator"
  have e: "(\<lambda>p::string. True) ''a.mp4''" by simp
  have l: "gen_model ?g = Some 7 \<or> gen_model ?g = None \<and> load_step test_engine (gen_model_size ?g) = Inr 7"
    by (simp add: new_SubtitleGenerator_def test_engine_def)
  from transcribe_merge [where file_exists = "\<lambda>p. True" and kwargs = ?kw and calls = "[]"
      and cfgs = module_store, OF e l]
  obtain params where
    t: "transcribe test_engine (\<lambda>p. True) module_store ''a.mp4'' ?kw (?g, []) =
       (run_step test_engine 7 ''a.mp4'' params,
        (?g\<lparr>gen_model := Some 7\<rparr>,
         [] @ (if gen_model ?g = None then [LoadCall (gen_model_size ?g)] else [])
               @ [RunCall 7 ''a.mp4'' params]))"
    and a: "\<forall>k v. ?kw k = Some v \<longrightarrow> params k = Some v"
    and b: "\<forall>k. ?kw k = None \<longrightarrow> params k = to_whisper_params (module_store (gen_config ?g)) k"
    by blast
  have "params ''task'' = Some (PStr ''translate'')" using a by simp
  moreover have "params ''fp16'' = Some (PBool False)" using a by simp
  moreover have "params ''language'' = Some (PStr ''sk'')"
    using b [rule_format, of "''language''"]
    by (simp add: module_store_def DEFAULT_CONFIG_def new_WhisperConfig_def post_init_def
        field_defaults_def to_whisper_params_def)
  moreover have "transcribe test_engine (\<lambda>p. True) module_store ''a.mp4'' ?kw (?g, []) =
       (Inr \<lparr>res_text = [], res_segments = [], res_language = []\<rparr>,
        (?g\<lparr>gen_model := Some 7\<rparr>, [LoadCall ''turbo'', RunCall 7 ''a.mp4'' params]))"
    using t by (simp add: new_SubtitleGenerator_def test_engine_def)
  ultimately show ?thesis by blast
qed

text \<open>
  C8. The export holds a string under \<open>initial_prompt\<close>, never \<open>None\<close>, for every instance
  whose \<open>initial_prompt\<close> is \<open>None\<close> or a string, as the field is declared: the empty string
  stands for \<open>None\<close>. The same holds for what the constructor builds from such arguments,
  where an absent prompt with a language other than the default one gives the empty string.
\<close>

theorem export_initial_prompt_is_string:
  "(initial_prompt cfg = PNone \<or> (\<exists>p. initial_prompt cfg = PStr p) \<longrightarrow>
      (\<exists>s. to_whisper_params cfg ''initial_prompt'' = Some (PStr s)
           \<and> (initial_prompt cfg = PNone \<longrightarrow> s = [])))
   \<and> (initial_prompt args = PNone \<or> (\<exists>p. initial_prompt args = PStr p) \<longrightarrow>
      (\<exists>s. to_whisper_params (new_WhisperConfig args) ''initial_prompt'' = Some (PStr s)
           \<and> (initial_prompt args = PNone \<and> language args \<noteq> PStr ''sk'' \<longrightarrow> s = [])))"
proof -
  have g: "\<exists>s. to_whisper_params c ''initial_prompt'' = Some (PStr s)
           \<and> (initial_prompt c = PNone \<longrightarrow> s = [])"
    if "initial_prompt c = PNone \<or> (\<exists>p. initial_prompt c = PStr p)" for c
    using that by (auto simp: to_whisper_params_def py_or_def)
  have t: "initial_prompt (new_WhisperConfig args) = PNone
         \<or> (\<exists>p. initial_prompt (new_WhisperConfig args) = PStr p)"
    if "initial_prompt args = PNone \<or> (\<exists>p. initial_prompt args = PStr p)"
    using that by (auto simp: new_WhisperConfig_def post_init_def)
  have k: "initial_prompt (new_WhisperConfig args) = PNone"
    if "initial_prompt args = PNone" "language args \<noteq> PStr ''sk''"
    using that by (simp add: new_WhisperConfig_def post_init_def)
  show ?thesis
    using g [of cfg] g [OF t] k by blast
qed

theorem export_initial_prompt_is_string_witness:
  "to_whisper_params (field_defaults\<lparr>language := PStr ''en''\<rparr>) ''initial_prompt'' = Some (PStr [])
   \<and> to_whisper_params (new_WhisperConfig (field_defaults\<lparr>language := PStr ''en''\<rparr>)) ''initial_prompt''
       = Some (PStr [])
   \<and> to_whisper_params (new_WhisperConfig field_defaults) ''initial_prompt'' = Some (PStr slovak_prompt)"
proof -
  let ?c = "field_defaults\<lparr>language := PStr ''en''\<rparr>"
  have n: "initial_prompt ?c = PNone" "language ?c \<noteq> PStr ''sk''"
    by (simp_all add: field_defaults_def)
  from export_initial_prompt_is_string [of ?c ?c] n
  have "to_whisper_params ?c ''initial_prompt'' = Some (PStr [])"
    and "to_whisper_params (new_WhisperConfig ?c) ''initial_prompt'' = Some (PStr [])"
    by auto
  moreover have "to_whisper_params (new_WhisperConfig field_defaults) ''initial_prompt'' = Some (PStr slovak_prompt)"
    by (simp add: to_whisper_params_def new_WhisperConfig_def post_init_def field_defaults_def
        py_or_def slovak_prompt_def)
  ultimately show ?thesis by simp
qed

lemma fields_set_field_all:
  "\<forall>k \<in> set field_names. field_items (set_field c k v) = AList.update k v (field_items c)"
  by (simp add: field_names_def set_field_def field_items_def)

lemma fields_set_field:
  "k \<in> set field_names \<Longrightarrow> field_items (set_field c k v) = AList.update k v (field_items c)"
  using fields_set_field_all by blast

lemma get_set_field:
  assumes "k \<in> set field_names"
  shows "get_field (set_field c k v) f = (if f = k then Some v else get_field c f)"
  by (simp add: get_field_def fields_set_field [OF assms] update_conv')

lemma get_field_None: "k \<notin> set field_names \<Longrightarrow> get_field c k = None"
  by (simp add: get_field_def field_items_def field_names_def)

lemma other_attrs_set_field: "other_attrs (set_field c k v) = other_attrs c"
  by (simp add: set_field_def)

lemma hasattr_set_field: "hasattr cls (set_field c k v) f = hasattr cls c f"
  by (simp add: hasattr_def other_attrs_set_field)

lemma slots_not_fields: "\<forall>k \<in> set object_slots. k \<notin> set field_names"
  by (simp add: object_slots_def field_names_def)

lemma setattr_field: "k \<in> set field_names \<Longrightarrow> setattr c k v = Inr (set_field c k v)"
  by (simp add: setattr_def)

lemma setattr_slot:
  assumes "k \<in> set object_slots"
  shows "setattr c k v = Inl (if k = ''__weakref__'' then AttributeError else TypeError)"
proof -
  have nf: "k \<notin> set field_names"
    using slots_not_fields assms by blast
  have "k = ''__class__'' \<or> k = ''__dict__'' \<or> k = ''__weakref__''"
    using assms by (simp add: object_slots_def)
  then show ?thesis
    using nf by (auto simp: setattr_def)
qed

lemma update_config_loop_skip:
  "\<not> hasattr cls (cfgs a) k \<Longrightarrow>
     update_config_loop cls a cfgs ((k, v) # rest) = update_config_loop cls a cfgs rest"
  by simp

lemma update_config_loop_field:
  "k \<in> set field_names \<Longrightarrow>
     update_config_loop cls a cfgs ((k, v) # rest) =
       update_config_loop cls a (cfgs(a := set_field (cfgs a) k v)) rest"
  by (simp add: hasattr_def setattr_field)

lemma update_config_loop_slot:
  "k \<in> set object_slots \<Longrightarrow>
     update_config_loop cls a cfgs ((k, v) # rest) =
       (Inl (if k = ''__weakref__'' then AttributeError else TypeError), cfgs)"
  by (simp add: hasattr_def setattr_slot)

lemma update_config_loop_append:
  "update_config_loop cls a cfgs (pre @ rest) =
     (case update_config_loop cls a cfgs pre of
        (Inl e, c) \<Rightarrow> (Inl e, c)
      | (Inr u, c) \<Rightarrow> update_config_loop cls a c rest)"
proof (induction pre arbitrary: cfgs)
  case Nil
  show ?case by simp
next
  case (Cons kv pre)
  obtain k v where kv: "kv = (k, v)" by (cases kv)
  show ?case
  proof (cases "hasattr cls (cfgs a) k")
    case False
    then have step: "update_config_loop cls a cfgs ((k, v) # xs) = update_config_loop cls a cfgs xs" for xs
      by simp
    show ?thesis
      by (simp only: kv append_Cons step Cons.IH)
  next
    case True
    show ?thesis
    proof (cases "setattr (cfgs a) k v")
      case (Inl e)
      with True show ?thesis by (simp add: kv)
    next
      case (Inr c)
      with True have step: "update_config_loop cls a cfgs ((k, v) # xs) =
          update_config_loop cls a (cfgs(a := c)) xs" for xs
        by simp
      show ?thesis
        by (simp only: kv append_Cons step Cons.IH)
    qed
  qed
qed

lemma setattr_other:
  "k \<notin> set field_names \<Longrightarrow> k \<notin> set object_slots \<Longrightarrow>
     setattr c k v = Inr (c\<lparr>other_attrs := (other_attrs c)(k \<mapsto> v)\<rparr>)"
  by (simp add: setattr_def object_slots_def)

lemma get_field_other_attrs: "get_field (c\<lparr>other_attrs := m\<rparr>) f = get_field c f"
  by (simp add: get_field_def field_items_def)

lemma hasattr_other_attrs:
  "hasattr cls (c\<lparr>other_attrs := (other_attrs c)(k \<mapsto> v)\<rparr>) f \<longleftrightarrow> f = k \<or> hasattr cls c f"
  by (auto simp: hasattr_def)

lemma hasattr_field: "k \<in> set field_names \<Longrightarrow> hasattr cls c k"
  by (simp add: hasattr_def)

lemma update_config_loop_other:
  "k \<notin> set field_names \<Longrightarrow> k \<notin> set object_slots \<Longrightarrow> hasattr cls (cfgs a) k \<Longrightarrow>
     update_config_loop cls a cfgs ((k, v) # rest) =
       update_config_loop cls a
         (cfgs(a := (cfgs a)\<lparr>other_attrs := (other_attrs (cfgs a))(k \<mapsto> v)\<rparr>)) rest"
  by (simp add: setattr_other)

lemma update_config_loop_no_slot:
  assumes "distinct (map fst kwargs)"
    and "\<forall>k \<in> set (map fst kwargs). k \<notin> set object_slots"
  shows "fst (update_config_loop cls a cfgs kwargs) = Inr ()
     \<and> (\<forall>f. get_field (snd (update_config_loop cls a cfgs kwargs) a) f =
           (case map_of kwargs f of
              Some v \<Rightarrow> if f \<in> set field_names then Some v else get_field (cfgs a) f
            | None \<Rightarrow> get_field (cfgs a) f))
     \<and> (\<forall>k. other_attrs (snd (update_config_loop cls a cfgs kwargs) a) k =
           (case map_of kwargs k of
              Some v \<Rightarrow> if k \<notin> set field_names \<and> hasattr cls (cfgs a) k then Some v
                        else other_attrs (cfgs a) k
            | None \<Rightarrow> other_attrs (cfgs a) k))
     \<and> (\<forall>b. b \<noteq> a \<longrightarrow> snd (update_config_loop cls a cfgs kwargs) b = cfgs b)"
  using assms
proof (induction kwargs arbitrary: cfgs)
  case Nil
  show ?case by simp
next
  case (Cons kv kwargs)
  let ?P = "\<lambda>c. fst (update_config_loop cls a c kwargs) = Inr ()
     \<and> (\<forall>f. get_field (snd (update_config_loop cls a c kwargs) a) f =
           (case map_of kwargs f of
              Some v \<Rightarrow> if f \<in> set field_names then Some v else get_field (c a) f
            | None \<Rightarrow> get_field (c a) f))
     \<and> (\<forall>k. other_attrs (snd (update_config_loop cls a c kwargs) a) k =
           (case map_of kwargs k of
              Some v \<Rightarrow> if k \<notin> set field_names \<and> hasattr cls (c a) k then Some v
                        else other_attrs (c a) k
            | None \<Rightarrow> other_attrs (c a) k))
     \<and> (\<forall>b. b \<noteq> a \<longrightarrow> snd (update_config_loop cls a c kwargs) b = c b)"
  obtain k v where kv: "kv = (k, v)" by (cases kv)
  have d: "distinct (map fst kwargs)" and nk: "k \<notin> fst ` set kwargs"
    using Cons.prems(1) by (auto simp: kv)
  have m: "map_of kwargs k = None"
    using nk by (simp add: map_of_eq_None_iff)
  have ns: "k \<notin> set object_slots"
    and s: "\<forall>k' \<in> set (map fst kwargs). k' \<notin> set object_slots"
    using Cons.prems(2) by (simp_all add: kv)
  show ?case
  proof (cases "k \<in> set field_names")
    case True
    let ?c = "cfgs(a := set_field (cfgs a) k v)"
    have ih: "?P ?c"
      by (rule Cons.IH [of ?c, OF d s])
    show ?thesis
      unfolding kv update_config_loop_field [OF True]
      using ih m True
      by (auto simp: get_set_field other_attrs_set_field hasattr_set_field split: option.splits)
  next
    case False
    show ?thesis
    proof (cases "hasattr cls (cfgs a) k")
      case h: True
      let ?c = "cfgs(a := (cfgs a)\<lparr>other_attrs := (other_attrs (cfgs a))(k \<mapsto> v)\<rparr>)"
      have ih: "?P ?c"
        by (rule Cons.IH [of ?c, OF d s])
      show ?thesis
        unfolding kv update_config_loop_other [of k cls cfgs a, OF False ns h]
        using ih m False h
        by (auto simp: get_field_other_attrs hasattr_other_attrs get_field_None
            split: option.splits)
    next
      case nh: False
      have ih: "?P cfgs"
        by (rule Cons.IH [of cfgs, OF d s])
      show ?thesis
        unfolding kv update_config_loop_skip [of cls cfgs a k, OF nh]
        using ih m False nh
        by (auto simp: get_field_None split: option.splits)
    qed
  qed
qed

lemma default_config_fields:
  "get_field DEFAULT_CONFIG ''language'' = Some (PStr ''sk'')"
  "get_field DEFAULT_CONFIG ''task'' = Some (PStr ''transcribe'')"
  "get_field DEFAULT_CONFIG ''colour'' = None"
  "other_attrs DEFAULT_CONFIG = Map.empty"
  by (simp_all add: get_field_def field_items_def DEFAULT_CONFIG_def new_WhisperConfig_def
      post_init_def field_defaults_def)

lemma test_generator_config: "gen_config test_generator = DEFAULT_CONFIG_ref"
  by (simp add: test_generator_def new_SubtitleGenerator_def)

text \<open>
  Two generators built without a configuration hold the same object: what one of them
  assigns, the other exports at its next transcription.
\<close>

lemma update_config_shared_default:
  "to_whisper_params
     (snd (update_config cls [(''language'', PStr ''en'')]
             (new_SubtitleGenerator m None :: 'h SubtitleGenerator) module_store)
        (gen_config (new_SubtitleGenerator n None :: 'h SubtitleGenerator)))
     ''language'' = Some (PStr ''en'')"
proof -
  have f: "''language'' \<in> set field_names"
    by (simp add: field_names_def)
  have g: "gen_config (new_SubtitleGenerator x None :: 'h SubtitleGenerator) = DEFAULT_CONFIG_ref" for x
    by (simp add: new_SubtitleGenerator_def)
  have u: "update_config cls [(''language'', PStr ''en'')]
             (new_SubtitleGenerator m None :: 'h SubtitleGenerator) module_store =
           (Inr (), module_store(DEFAULT_CONFIG_ref :=
              set_field (module_store DEFAULT_CONFIG_ref) ''language'' (PStr ''en'')))"
    by (simp only: update_config_def g update_config_loop_field [OF f] update_config_loop.simps(1))
  show ?thesis
    unfolding u g
    by (simp add: set_field_def to_whisper_params_def)
qed

text \<open>
  C10, as the code has it. \<open>update_config\<close> takes the keywords, whose names differ from one
  another, in their order and assigns in place, on the configuration object that the
  generator holds. A keyword that names no attribute of that object is skipped: nothing is
  raised and the store is as it was. In a call none of whose keywords names \<open>__class__\<close>,
  \<open>__dict__\<close> or \<open>__weakref__\<close> nothing is raised; afterwards each field that a keyword
  names holds the value of that keyword and every other field holds what it held; a keyword
  that names another attribute of the object is stored in the instance dictionary, which
  holds what it held under every other name; every other object is as it was. A keyword
  that names \<open>__class__\<close>, \<open>__dict__\<close> or \<open>__weakref__\<close>, which every instance has, makes
  the assignment raise (\<open>TypeError\<close>, or \<open>AttributeError\<close> for \<open>__weakref__\<close>): the call
  ends with that exception, the keywords before it having been dealt with and the ones
  after it, fields or not, never being assigned.
\<close>

theorem update_config_assigns_fields_only:
  "(\<not> hasattr class_attrs (cfgs (gen_config self)) key \<longrightarrow>
      update_config_loop class_attrs (gen_config self) cfgs ((key, v) # rest)
        = update_config_loop class_attrs (gen_config self) cfgs rest
      \<and> update_config class_attrs [(key, v)] self cfgs = (Inr (), cfgs))
   \<and> (distinct (map fst kwargs) \<and> (\<forall>k \<in> set (map fst kwargs). k \<notin> set object_slots) \<longrightarrow>
      fst (update_config class_attrs kwargs self cfgs) = Inr ()
      \<and> (\<forall>f. get_field (snd (update_config class_attrs kwargs self cfgs) (gen_config self)) f =
           (case map_of kwargs f of
              Some v \<Rightarrow> if f \<in> set field_names then Some v else get_field (cfgs (gen_config self)) f
            | None \<Rightarrow> get_field (cfgs (gen_config self)) f))
      \<and> (\<forall>k. other_attrs (snd (update_config class_attrs kwargs self cfgs) (gen_config self)) k =
           (case map_of kwargs k of
              Some v \<Rightarrow>
                if k \<notin> set field_names \<and> hasattr class_attrs (cfgs (gen_config self)) k then Some v
                else other_attrs (cfgs (gen_config self)) k
            | None \<Rightarrow> other_attrs (cfgs (gen_config self)) k))
      \<and> (\<forall>b. b \<noteq> gen_config self \<longrightarrow> snd (update_config class_attrs kwargs self cfgs) b = cfgs b))
   \<and> (slot \<in> set object_slots \<longrightarrow>
        update_config class_attrs (before @ (slot, w) # after) self cfgs =
          (case update_config class_attrs before self cfgs of
             (Inl e, c) \<Rightarrow> (Inl e, c)
           | (Inr u, c) \<Rightarrow> (Inl (if slot = ''__weakref__'' then AttributeError else TypeError), c)))"
proof (intro conjI impI)
  assume "\<not> hasattr class_attrs (cfgs (gen_config self)) key"
  then show "update_config_loop class_attrs (gen_config self) cfgs ((key, v) # rest)
        = update_config_loop class_attrs (gen_config self) cfgs rest"
    and "update_config class_attrs [(key, v)] self cfgs = (Inr (), cfgs)"
    by (simp_all add: update_config_def)
next
  assume a: "distinct (map fst kwargs) \<and> (\<forall>k \<in> set (map fst kwargs). k \<notin> set object_slots)"
  from a have d: "distinct (map fst kwargs)"
    and h: "\<forall>k \<in> set (map fst kwargs). k \<notin> set object_slots"
    by blast+
  note l = update_config_loop_no_slot [where cfgs = cfgs and a = "gen_config self"
      and cls = class_attrs, OF d h]
  show "fst (update_config class_attrs kwargs self cfgs) = Inr ()"
    using l by (simp add: update_config_def)
  show "\<forall>f. get_field (snd (update_config class_attrs kwargs self cfgs) (gen_config self)) f =
           (case map_of kwargs f of
              Some v \<Rightarrow> if f \<in> set field_names then Some v else get_field (cfgs (gen_config self)) f
            | None \<Rightarrow> get_field (cfgs (gen_config self)) f)"
    using l by (simp add: update_config_def)
  show "\<forall>k. other_attrs (snd (update_config class_attrs kwargs self cfgs) (gen_config self)) k =
           (case map_of kwargs k of
              Some v \<Rightarrow>
                if k \<notin> set field_names \<and> hasattr class_attrs (cfgs (gen_config self)) k then Some v
                else other_attrs (cfgs (gen_config self)) k
            | None \<Rightarrow> other_attrs (cfgs (gen_config self)) k)"
    using l by (simp add: update_config_def)
  show "\<forall>b. b \<noteq> gen_config self \<longrightarrow> snd (update_config class_attrs kwargs self cfgs) b = cfgs b"
    using l by (simp add: update_config_def)
next
  assume s: "slot \<in> set object_slots"
  show "update_config class_attrs (before @ (slot, w) # after) self cfgs =
          (case update_config class_attrs before self cfgs of
             (Inl e, c) \<Rightarrow> (Inl e, c)
           | (Inr u, c) \<Rightarrow> (Inl (if slot = ''__weakref__'' then AttributeError else TypeError), c))"
    unfolding update_config_def update_config_loop_append [of _ _ _ before]
      update_config_loop_slot [OF s]
    by simp
qed

theorem update_config_assigns_fields_only_witness:
  "update_config [''to_whisper_params''] [(''colour'', PInt 3)] test_generator module_store
     = (Inr (), module_store)
   \<and> fst (update_config [''to_whisper_params'']
          [(''language'', PStr ''en''), (''colour'', PInt 3), (''to_whisper_params'', PInt 5)]
          test_generator module_store) = Inr ()
   \<and> get_field (snd (update_config [''to_whisper_params'']
          [(''language'', PStr ''en''), (''colour'', PInt 3), (''to_whisper_params'', PInt 5)]
          test_generator module_store) DEFAULT_CONFIG_ref)
        ''language'' = Some (PStr ''en'')
   \<and> get_field (snd (update_config [''to_whisper_params'']
          [(''language'', PStr ''en''), (''colour'', PInt 3), (''to_whisper_params'', PInt 5)]
          test_generator module_store) DEFAULT_CONFIG_ref)
        ''task'' = Some (PStr ''transcribe'')
   \<and> other_attrs (snd (update_config [''to_whisper_params'']
          [(''language'', PStr ''en''), (''colour'', PInt 3), (''to_whisper_params'', PInt 5)]
          test_generator module_store) DEFAULT_CONFIG_ref)
        ''colour'' = None
   \<and> other_attrs (snd (update_config [''to_whisper_params'']
          [(''language'', PStr ''en''), (''colour'', PInt 3), (''to_whisper_params'', PInt 5)]
          test_generator module_store) DEFAULT_CONFIG_ref)
        ''to_whisper_params'' = Some (PInt 5)
   \<and> update_config [''to_whisper_params'']
          [(''task'', PStr ''translate''), (''__dict__'', PInt 0), (''language'', PStr ''en'')]
          test_generator module_store
        = (Inl TypeError,
           module_store(DEFAULT_CONFIG_ref := set_field DEFAULT_CONFIG ''task'' (PStr ''translate'')))"
proof -
  let ?cls = "[''to_whisper_params'']"
  let ?kw = "[(''language'', PStr ''en''), (''colour'', PInt 3), (''to_whisper_params'', PInt 5)]"
  note cfg = test_generator_config
  have st: "module_store DEFAULT_CONFIG_ref = DEFAULT_CONFIG"
    by (simp add: module_store_def)
  have nh: "\<not> hasattr ?cls (module_store (gen_config test_generator)) ''colour''"
    by (simp add: hasattr_def cfg st default_config_fields field_names_def object_slots_def)
  have hm: "hasattr ?cls DEFAULT_CONFIG ''to_whisper_params''"
    by (simp add: hasattr_def)
  have d: "distinct (map fst ?kw)" by simp
  have h: "\<forall>k \<in> set (map fst ?kw). k \<notin> set object_slots"
    by (simp add: object_slots_def)
  have sl: "''__dict__'' \<in> set object_slots"
    by (simp add: object_slots_def)
  have tf: "''task'' \<in> set field_names"
    by (simp add: field_names_def)
  have nf: "''colour'' \<notin> set field_names" "''to_whisper_params'' \<notin> set field_names"
    by (simp_all add: field_names_def)
  note t = update_config_assigns_fields_only [where class_attrs = ?cls and kwargs = ?kw
      and self = test_generator and cfgs = module_store and key = "''colour''"
      and v = "PInt 3" and slot = "''__dict__''" and w = "PInt 0"
      and before = "[(''task'', PStr ''translate'')]" and after = "[(''language'', PStr ''en'')]"]
  have 1: "update_config ?cls [(''colour'', PInt 3)] test_generator module_store = (Inr (), module_store)"
    using t [THEN conjunct1, rule_format, OF nh, THEN conjunct2] .
  note ok = t [THEN conjunct2, THEN conjunct1, rule_format, OF conjI [OF d h]]
  have 0: "fst (update_config ?cls ?kw test_generator module_store) = Inr ()"
    using ok by blast
  have 2: "get_field (snd (update_config ?cls ?kw test_generator module_store) DEFAULT_CONFIG_ref) f =
           (case map_of ?kw f of
              Some v \<Rightarrow> if f \<in> set field_names then Some v else get_field DEFAULT_CONFIG f
            | None \<Rightarrow> get_field DEFAULT_CONFIG f)" for f
    using ok [THEN conjunct2, THEN conjunct1] unfolding cfg st by blast
  have 7: "other_attrs (snd (update_config ?cls ?kw test_generator module_store) DEFAULT_CONFIG_ref) k =
           (case map_of ?kw k of
              Some v \<Rightarrow> if k \<notin> set field_names \<and> hasattr ?cls DEFAULT_CONFIG k then Some v
                        else other_attrs DEFAULT_CONFIG k
            | None \<Rightarrow> other_attrs DEFAULT_CONFIG k)" for k
    using ok [THEN conjunct2, THEN conjunct2, THEN conjunct1] unfolding cfg st by blast
  have 3: "get_field (snd (update_config ?cls ?kw test_generator module_store) DEFAULT_CONFIG_ref)
             ''language'' = Some (PStr ''en'')"
    using 2 [of "''language''"] by (simp add: field_names_def)
  have 4: "get_field (snd (update_config ?cls ?kw test_generator module_store) DEFAULT_CONFIG_ref)
             ''task'' = Some (PStr ''transcribe'')"
    using 2 [of "''task''"] by (simp add: default_config_fields)
  have 5: "other_attrs (snd (update_config ?cls ?kw test_generator module_store) DEFAULT_CONFIG_ref)
             ''colour'' = None"
    using 7 [of "''colour''"] nh by (simp add: cfg st default_config_fields)
  have 8: "other_attrs (snd (update_config ?cls ?kw test_generator module_store) DEFAULT_CONFIG_ref)
             ''to_whisper_params'' = Some (PInt 5)"
    using 7 [of "''to_whisper_params''"] hm nf by simp
  have pre: "update_config ?cls [(''task'', PStr ''translate'')] test_generator module_store =
      (Inr (), module_store(DEFAULT_CONFIG_ref := set_field DEFAULT_CONFIG ''task'' (PStr ''translate'')))"
    by (simp only: update_config_def cfg st update_config_loop_field [OF tf]
        update_config_loop.simps(1))
  have 6: "update_config ?cls
          [(''task'', PStr ''translate''), (''__dict__'', PInt 0), (''language'', PStr ''en'')]
          test_generator module_store
        = (Inl TypeError,
           module_store(DEFAULT_CONFIG_ref := set_field DEFAULT_CONFIG ''task'' (PStr ''translate'')))"
    using t [THEN conjunct2, THEN conjunct2, rule_format, OF sl] unfolding pre by simp
  from 1 0 3 4 5 8 6 show ?thesis by blast
qed

text \<open>
  A keyword that names a field is not always assigned: in
  \<open>update_config(language='en', __class__=3, task='translate')\<close> the second assignment
  raises \<open>TypeError\<close>, when \<open>language\<close> has been assigned and \<open>task\<close> has not been and
  never is.
\<close>

theorem update_config_assigns_fields_only_counterexample:
  "fst (update_config []
          [(''language'', PStr ''en''), (''__class__'', PInt 3), (''task'', PStr ''translate'')]
          test_generator module_store) = Inl TypeError
   \<and> get_field (snd (update_config []
          [(''language'', PStr ''en''), (''__class__'', PInt 3), (''task'', PStr ''translate'')]
          test_generator module_store) (gen_config test_generator)) ''language'' = Some (PStr ''en'')
   \<and> get_field (snd (update_config []
          [(''language'', PStr ''en''), (''__class__'', PInt 3), (''task'', PStr ''translate'')]
          test_generator module_store) (gen_config test_generator)) ''task'' = Some (PStr ''transcribe'')"
proof -
  have lf: "''language'' \<in> set field_names"
    by (simp add: field_names_def)
  have sl: "''__class__'' \<in> set object_slots"
    by (simp add: object_slots_def)
  have st: "module_store DEFAULT_CONFIG_ref = DEFAULT_CONFIG"
    by (simp add: module_store_def)
  have e: "update_config []
          [(''language'', PStr ''en''), (''__class__'', PInt 3), (''task'', PStr ''translate'')]
          test_generator module_store =
        (Inl TypeError,
         module_store(DEFAULT_CONFIG_ref := set_field DEFAULT_CONFIG ''language'' (PStr ''en'')))"
    unfolding update_config_def test_generator_config update_config_loop_field [OF lf]
      update_config_loop_slot [OF sl] st
    by simp
  show ?thesis
    unfolding e test_generator_config
    by (simp add: get_set_field [OF lf] default_config_fields)
qed

lemma load_model_loaded:
  "gen_model self = Some h \<Longrightarrow> load_model eng (self, calls) = (Inr (), (self, calls))"
  by (simp add: load_model_def)

lemma load_model_unloaded_ok:
  "gen_model self = None \<Longrightarrow> load_step eng (gen_model_size self) = Inr h \<Longrightarrow>
     load_model eng (self, calls) =
       (Inr (), (self\<lparr>gen_model := Some h\<rparr>, calls @ [LoadCall (gen_model_size self)]))"
  by (simp add: load_model_def)

lemma load_model_unloaded_fail:
  "gen_model self = None \<Longrightarrow> load_step eng (gen_model_size self) = Inl e \<Longrightarrow>
     load_model eng (self, calls) = (Inl e, (self, calls @ [LoadCall (gen_model_size self)]))"
  by (simp add: load_model_def)

lemma transcribe_loaded:
  "gen_model self = Some h \<Longrightarrow>
     transcribe eng file_exists cfgs p kwargs (self, calls) =
       (if \<not> file_exists p
        then (Inl (FileNotFoundError (''Video file not found: '' @ p)), (self, calls))
        else (run_step eng h p (to_whisper_params (cfgs (gen_config self)) ++ kwargs),
              (self, calls @ [RunCall h p (to_whisper_params (cfgs (gen_config self)) ++ kwargs)])))"
  by (simp add: transcribe_def load_model_loaded Let_def)

lemma exec_op_loaded:
  assumes "gen_model (fst (fst s)) = Some h"
  shows "gen_model (fst (fst (exec_op eng file_exists cls s x))) = Some h
       \<and> load_count (snd (fst (exec_op eng file_exists cls s x))) = load_count (snd (fst s))"
proof -
  obtain self calls cfgs where s: "s = ((self, calls), cfgs)" by (cases s) auto
  with assms have m: "gen_model self = Some h" by simp
  show ?thesis
    by (cases x) (simp_all add: s m load_model_loaded transcribe_loaded load_count_def)
qed

lemma exec_ops_loaded:
  assumes "gen_model (fst (fst s)) = Some h"
  shows "gen_model (fst (fst (exec_ops eng file_exists cls s ops))) = Some h
       \<and> load_count (snd (fst (exec_ops eng file_exists cls s ops))) = load_count (snd (fst s))"
  using assms
proof (induction ops arbitrary: s)
  case Nil
  then show ?case by (simp add: exec_ops_def)
next
  case (Cons x ops)
  from exec_op_loaded [OF Cons.prems, of eng file_exists cls x]
  have a: "gen_model (fst (fst (exec_op eng file_exists cls s x))) = Some h"
    and b: "load_count (snd (fst (exec_op eng file_exists cls s x))) = load_count (snd (fst s))"
    by blast+
  from Cons.IH [OF a] b show ?case
    by (simp add: exec_ops_def)
qed

text \<open>
  C9. A new generator is unloaded. From the unloaded state a load request whose engine call
  succeeds makes the instance loaded by exactly one call of the engine's loading step, and
  so does a first \<open>transcribe\<close>. On a loaded instance a load request does nothing, and
  whatever sequence of load requests, transcriptions and configuration updates follows,
  whether they raise or not, the handle stays the same and the loading step is not called
  again.
\<close>

theorem handle_lifecycle:
  "gen_model (new_SubtitleGenerator msize cfg :: 'h SubtitleGenerator) = None
   \<and> (gen_model self = None \<and> load_step eng (gen_model_size self) = Inr h \<longrightarrow>
        load_model eng (self, calls) =
          (Inr (), (self\<lparr>gen_model := Some h\<rparr>, calls @ [LoadCall (gen_model_size self)]))
        \<and> gen_model (fst (snd (transcribe eng file_exists cfgs p kwargs (self, calls)))) = Some h
        \<and> load_count (snd (snd (transcribe eng file_exists cfgs p kwargs (self, calls)))) = load_count calls + 1)
   \<and> (gen_model self = Some h \<longrightarrow>
        load_model eng (self, calls) = (Inr (), (self, calls))
        \<and> (\<forall>ops. gen_model (fst (fst (exec_ops eng file_exists class_attrs ((self, calls), cfgs) ops))) = Some h
                 \<and> load_count (snd (fst (exec_ops eng file_exists class_attrs ((self, calls), cfgs) ops)))
                     = load_count calls))"
proof (intro conjI impI allI)
  show "gen_model (new_SubtitleGenerator msize cfg :: 'h SubtitleGenerator) = None"
    by (simp add: new_SubtitleGenerator_def)
next
  assume a: "gen_model self = None \<and> load_step eng (gen_model_size self) = Inr h"
  then show "load_model eng (self, calls) =
          (Inr (), (self\<lparr>gen_model := Some h\<rparr>, calls @ [LoadCall (gen_model_size self)]))"
    by (simp add: load_model_unloaded_ok)
  from a show "gen_model (fst (snd (transcribe eng file_exists cfgs p kwargs (self, calls)))) = Some h"
    by (simp add: transcribe_def load_model_unloaded_ok Let_def)
  from a show "load_count (snd (snd (transcribe eng file_exists cfgs p kwargs (self, calls)))) = load_count calls + 1"
    by (simp add: transcribe_def load_model_unloaded_ok Let_def load_count_def)
next
  assume a: "gen_model self = Some h"
  then show "load_model eng (self, calls) = (Inr (), (self, calls))"
    by (rule load_model_loaded)
  fix ops
  from a have "gen_model (fst (fst ((self, calls), cfgs))) = Some h" by simp
  from exec_ops_loaded [OF this, of eng file_exists class_attrs ops]
  show "gen_model (fst (fst (exec_ops eng file_exists class_attrs ((self, calls), cfgs) ops))) = Some h"
    and "load_count (snd (fst (exec_ops eng file_exists class_attrs ((self, calls), cfgs) ops))) = load_count calls"
    by simp_all
qed

theorem handle_lifecycle_witness:
  "load_model test_engine (test_generator, []) =
      (Inr (), (test_generator\<lparr>gen_model := Some 7\<rparr>, [LoadCall ''turbo'']))
   \<and> load_model test_engine (test_generator\<lparr>gen_model := Some 7\<rparr>, [LoadCall ''turbo'']) =
      (Inr (), (test_generator\<lparr>gen_model := Some 7\<rparr>, [LoadCall ''turbo'']))
   \<and> load_count (snd (fst (exec_ops test_engine (\<lambda>p. True) []
        ((test_generator\<lparr>gen_model := Some 7\<rparr>, [LoadCall ''turbo'']), module_store)
        [Load, Transcribe ''a.mp4'' Map.empty, UpdateConfig [(''task'', PStr ''translate'')],
         UpdateConfig [(''__class__'', PInt 3)], Load]))) = 1"
proof -
  let ?g = "test_generator\<lparr>gen_model := Some 7\<rparr>"
  have u: "gen_model test_generator = None \<and> load_step test_engine (gen_model_size test_generator) = Inr 7"
    by (simp add: test_generator_def new_SubtitleGenerator_def test_engine_def)
  have ms: "gen_model_size test_generator = ''turbo''"
    by (simp add: test_generator_def new_SubtitleGenerator_def)
  have l: "gen_model ?g = Some 7" by simp
  have 1: "load_model test_engine (test_generator, []) =
      (Inr (), (test_generator\<lparr>gen_model := Some 7\<rparr>, [LoadCall ''turbo'']))"
    using handle_lifecycle [where self = test_generator and eng = test_engine and h = 7 and calls = "[]",
        THEN conjunct2, THEN conjunct1, rule_format, OF u, THEN conjunct1]
    by (simp add: ms)
  note t = handle_lifecycle [where self = ?g and eng = test_engine and h = 7
        and calls = "[LoadCall ''turbo'']" and file_exists = "\<lambda>p. True" and class_attrs = "[]"
        and cfgs = module_store,
        THEN conjunct2, THEN conjunct2, rule_format, OF l]
  have 2: "load_model test_engine (?g, [LoadCall ''turbo'']) = (Inr (), (?g, [LoadCall ''turbo'']))"
    using t by blast
  have 3: "load_count (snd (fst (exec_ops test_engine (\<lambda>p. True) []
        ((?g, [LoadCall ''turbo'']), module_store)
        [Load, Transcribe ''a.mp4'' Map.empty, UpdateConfig [(''task'', PStr ''translate'')],
         UpdateConfig [(''__class__'', PInt 3)], Load]))) = 1"
    using t [THEN conjunct2, rule_format] by (simp add: load_count_def)
  from 1 2 3 show ?thesis by blast
qed

text \<open>
  C1, as the code has it. On a path that does not exist \<open>transcribe\<close> never calls the
  engine's run step. On a loaded instance it raises \<open>FileNotFoundError\<close> without any call
  into the engine. On an unloaded instance it first calls the loading step, once: if that
  succeeds the instance is loaded and \<open>FileNotFoundError\<close> is raised, if it fails its error
  is raised instead.
\<close>

theorem transcribe_missing_file:
  assumes "\<not> file_exists p"
  shows "(gen_model self = Some h \<longrightarrow>
            transcribe eng file_exists cfgs p kwargs (self, calls) =
              (Inl (FileNotFoundError (''Video file not found: '' @ p)), (self, calls)))
       \<and> (gen_model self = None \<and> load_step eng (gen_model_size self) = Inr h \<longrightarrow>
            transcribe eng file_exists cfgs p kwargs (self, calls) =
              (Inl (FileNotFoundError (''Video file not found: '' @ p)),
               (self\<lparr>gen_model := Some h\<rparr>, calls @ [LoadCall (gen_model_size self)])))
       \<and> (gen_model self = None \<and> load_step eng (gen_model_size self) = Inl e \<longrightarrow>
            transcribe eng file_exists cfgs p kwargs (self, calls) =
              (Inl e, (self, calls @ [LoadCall (gen_model_size self)])))
       \<and> run_count (snd (snd (transcribe eng file_exists cfgs p kwargs (self, calls)))) = run_count calls"
proof (intro conjI impI)
  assume "gen_model self = Some h"
  then show "transcribe eng file_exists cfgs p kwargs (self, calls) =
              (Inl (FileNotFoundError (''Video file not found: '' @ p)), (self, calls))"
    using assms by (simp add: transcribe_loaded)
next
  assume "gen_model self = None \<and> load_step eng (gen_model_size self) = Inr h"
  then show "transcribe eng file_exists cfgs p kwargs (self, calls) =
              (Inl (FileNotFoundError (''Video file not found: '' @ p)),
               (self\<lparr>gen_model := Some h\<rparr>, calls @ [LoadCall (gen_model_size self)]))"
    using assms by (simp add: transcribe_def load_model_unloaded_ok)
next
  assume "gen_model self = None \<and> load_step eng (gen_model_size self) = Inl e"
  then show "transcribe eng file_exists cfgs p kwargs (self, calls) =
              (Inl e, (self, calls @ [LoadCall (gen_model_size self)]))"
    by (simp add: transcribe_def load_model_unloaded_fail)
next
  show "run_count (snd (snd (transcribe eng file_exists cfgs p kwargs (self, calls)))) = run_count calls"
  proof (cases "gen_model self")
    case (Some h')
    then show ?thesis using assms by (simp add: transcribe_loaded)
  next
    case None
    then show ?thesis
      using assms
      by (cases "load_step eng (gen_model_size self)")
         (simp_all add: transcribe_def load_model_unloaded_ok load_model_unloaded_fail run_count_def)
  qed
qed

theorem transcribe_missing_file_witness:
  "transcribe test_engine (\<lambda>p. False) module_store ''missing.mp4'' Map.empty
      (test_generator\<lparr>gen_model := Some 7\<rparr>, [LoadCall ''turbo'']) =
     (Inl (FileNotFoundError ''Video file not found: missing.mp4''),
      (test_generator\<lparr>gen_model := Some 7\<rparr>, [LoadCall ''turbo'']))"
proof -
  have n: "\<not> (\<lambda>p::string. False) ''missing.mp4''" by simp
  have l: "gen_model (test_generator\<lparr>gen_model := Some 7\<rparr>) = Some 7" by simp
  from transcribe_missing_file [OF n, where self = "test_generator\<lparr>gen_model := Some 7\<rparr>" and h = 7,
      THEN conjunct1, rule_format, OF l]
  show ?thesis by simp
qed

text \<open>
  On a fresh generator and a missing file the loading step of the engine has been called
  when \<open>FileNotFoundError\<close> is raised.
\<close>

theorem transcribe_missing_file_counterexample:
  "fst (transcribe test_engine (\<lambda>p. False) module_store ''missing.mp4'' Map.empty (test_generator, [])) =
     Inl (FileNotFoundError ''Video file not found: missing.mp4'')
   \<and> snd (snd (transcribe test_engine (\<lambda>p. False) module_store ''missing.mp4'' Map.empty (test_generator, []))) =
     [LoadCall ''turbo'']"
  by (simp add: transcribe_def load_model_def test_generator_def new_SubtitleGenerator_def
      test_engine_def)

end
